theory Spec2Isabelle
  imports Complex_Main
begin

section \<open>Numerical core of pyboat: shared data model\<close>

text \<open>
  Arrays of floats are lists of reals (floating-point rounding, infinities and NaN are
  idealised away), arrays of integers are lists of ints, a two-dimensional array is a
  rectangular list of rows.  Every exception the Python code can raise is a value of
  \<open>py_error\<close>; a function that can raise returns \<open>py_error + 'a\<close>.
\<close>

datatype py_error =
  IndexError | ValueError | ZeroDivisionError | AssertionError | AttributeError | NameError

text \<open>Sequencing: the first exception ends the computation.\<close>

definition py_bind :: "py_error + 'a \<Rightarrow> ('a \<Rightarrow> py_error + 'b) \<Rightarrow> py_error + 'b" where
  "py_bind r f = (case r of Inl e \<Rightarrow> Inl e | Inr v \<Rightarrow> f v)"

type_synonym 'a matrix = "'a list list"

text \<open>\<open>a.shape[0]\<close> and \<open>a.shape[1]\<close> of a two-dimensional array.\<close>

definition shape0 :: "'a matrix \<Rightarrow> nat" where
  "shape0 a = length a"

definition shape1 :: "'a matrix \<Rightarrow> nat" where
  "shape1 a = (case a of [] \<Rightarrow> 0 | r # _ \<Rightarrow> length r)"

definition rectangular :: "'a matrix \<Rightarrow> bool" where
  "rectangular a = list_all (\<lambda>r. length r = shape1 a) a"

text \<open>
  An integer index into an axis of length \<open>n\<close>: numpy counts a negative index from the
  end and raises IndexError outside \<open>[-n, n)\<close>.
\<close>

definition np_index :: "nat \<Rightarrow> int \<Rightarrow> py_error + nat" where
  "np_index n i =
     (if 0 \<le> i \<and> i < int n then Inr (nat i)
      else if - int n \<le> i \<and> i < 0 then Inr (nat (int n + i))
      else Inl IndexError)"

definition getitem :: "'a list \<Rightarrow> int \<Rightarrow> py_error + 'a" where
  "getitem xs i = (case np_index (length xs) i of Inl e \<Rightarrow> Inl e | Inr j \<Rightarrow> Inr (xs ! j))"

definition getitem2 :: "'a matrix \<Rightarrow> int \<Rightarrow> int \<Rightarrow> py_error + 'a" where
  "getitem2 a y t =
     (case np_index (shape0 a) y of
        Inl e \<Rightarrow> Inl e
      | Inr r \<Rightarrow> (case np_index (shape1 a) t of Inl e \<Rightarrow> Inl e | Inr c \<Rightarrow> Inr (a ! r ! c)))"

text \<open>The first exception of a sequence of element reads, or all the values read.\<close>

fun collect :: "(py_error + 'a) list \<Rightarrow> py_error + 'a list" where
  "collect [] = Inr []"
| "collect (x # xs) =
     (case x of
        Inl e \<Rightarrow> Inl e
      | Inr v \<Rightarrow> (case collect xs of Inl e \<Rightarrow> Inl e | Inr vs \<Rightarrow> Inr (v # vs)))"

text \<open>
  Indexing with integer arrays: \<open>xs[ys]\<close> and \<open>a[ys, ts]\<close>.  Every call in the module
  passes \<open>ys\<close> and \<open>ts\<close> of one length; index arrays of different lengths are reported as
  IndexError (numpy would first try to broadcast an index array of length one).
\<close>

definition take_idx :: "'a list \<Rightarrow> int list \<Rightarrow> py_error + 'a list" where
  "take_idx xs ys = collect (map (getitem xs) ys)"

definition take_idx2 :: "'a matrix \<Rightarrow> int list \<Rightarrow> int list \<Rightarrow> py_error + 'a list" where
  "take_idx2 a ys ts =
     (if length ys \<noteq> length ts then Inl IndexError
      else collect (map2 (getitem2 a) ys ts))"

text \<open>\<open>np.arange(n)\<close>.\<close>

definition arange :: "nat \<Rightarrow> int list" where
  "arange n = map int [0..<n]"

text \<open>
  Indexing with a boolean array: \<open>xs[inds]\<close> keeps the entries whose flag is set, and
  raises IndexError when the mask and the array differ in length.
\<close>

definition np_mask :: "'a list \<Rightarrow> bool list \<Rightarrow> py_error + 'a list" where
  "np_mask xs inds =
     (if length inds \<noteq> length xs then Inl IndexError
      else Inr (map snd (filter fst (zip inds xs))))"

text \<open>\<open>np.mean\<close>, \<open>np.var\<close> and \<open>np.diff\<close>.\<close>

definition np_mean :: "real list \<Rightarrow> real" where
  "np_mean xs = sum_list xs / real (length xs)"

definition np_var :: "real list \<Rightarrow> real" where
  "np_var xs = np_mean (map (\<lambda>x. \<bar>x - np_mean xs\<bar> ^ 2) xs)"

definition np_diff :: "int list \<Rightarrow> int list" where
  "np_diff xs = map2 (\<lambda>b a. b - a) (tl xs) xs"

text \<open>Python's \<open>x % m\<close> on floats, for a positive modulus.\<close>

definition py_fmod :: "real \<Rightarrow> real \<Rightarrow> real" where
  "py_fmod x m = x - m * of_int \<lfloor>x / m\<rfloor>"

text \<open>
  Python slices with step one, \<open>xs[a:b]\<close>, and with step minus one, \<open>xs[a:b:-1]\<close>:
  negative bounds count from the end, and bounds are clipped to the array.
\<close>

definition py_slice :: "'a list \<Rightarrow> int \<Rightarrow> int \<Rightarrow> 'a list" where
  "py_slice xs a b =
     (let n = int (length xs);
          lo = (if a < 0 then max 0 (a + n) else min a n);
          hi = (if b < 0 then max 0 (b + n) else min b n)
      in drop (nat lo) (take (nat hi) xs))"

definition py_slice_rev :: "'a list \<Rightarrow> int \<Rightarrow> int \<Rightarrow> 'a list" where
  "py_slice_rev xs a b =
     (let n = int (length xs);
          hi = (if a < 0 then max (- 1) (a + n) else min a (n - 1));
          lo = (if b < 0 then max (- 1) (b + n) else min b (n - 1))
      in map (\<lambda>i. xs ! nat i) (rev [lo + 1..hi]))"

text \<open>
  \<open>np.convolve(a, v, mode="valid")\<close>: the entries of the full convolution where the two
  sequences overlap completely; numpy swaps the arguments so that the longer one comes
  first, and raises ValueError on an empty argument.
\<close>

definition convolve_valid :: "real list \<Rightarrow> real list \<Rightarrow> py_error + real list" where
  "convolve_valid a v =
     (if a = [] \<or> v = [] then Inl ValueError
      else let l = (if length a < length v then v else a);
               k = (if length a < length v then a else v);
               m = length k
           in Inr (map (\<lambda>i. sum_list (map (\<lambda>j. k ! j * l ! (i + m - 1 - j)) [0..<m]))
                     [0..<length l - m + 1]))"

text \<open>The module-level constant \<open>omega0 = 2 * pi\<close>.\<close>

definition omega0 :: real where
  "omega0 = 2 * pi"

section \<open>Scale conversion\<close>

text \<open>
  \<open>scales_from_periods(periods, sfreq, omega0)\<close>: the expression is broadcast by numpy
  over the array of periods.
\<close>

definition scales_from_periods :: "real list \<Rightarrow> real \<Rightarrow> real \<Rightarrow> real list" where
  "scales_from_periods periods sfreq om =
     map (\<lambda>p. (om + sqrt (2 + om ^ 2)) * p * sfreq / (4 * pi)) periods"

text \<open>\<open>Morlet_COI(omega0)\<close>: the slope of the cone of influence.\<close>

definition Morlet_COI :: "real \<Rightarrow> real" where
  "Morlet_COI om = 4 * pi / (sqrt 2 * (om + sqrt (2 + om ^ 2)))"

text \<open>\<open>power_to_amplitude(periods, powers, signal_std, dt)\<close>.\<close>

definition power_to_amplitude :: "real list \<Rightarrow> real list \<Rightarrow> real \<Rightarrow> real \<Rightarrow> real list" where
  "power_to_amplitude periods powers signal_std dt =
     (let scales = scales_from_periods periods (1 / dt) (2 * pi);
          kappa = map (\<lambda>s. 1 / sqrt s * pi powr (- (1 / 4))) scales;
          kappa' = map (\<lambda>k. k * signal_std * sqrt 2) kappa
      in map2 (\<lambda>p k. sqrt p * k) powers kappa')"

section \<open>Ridge evaluation\<close>

text \<open>
  The table returned by \<open>eval_ridge\<close>: a pandas DataFrame with the default index
  \<open>0, 1, \<dots>\<close> and six columns.
\<close>

record ridge_data =
  rd_index :: "nat list"
  rd_time :: "real list"
  rd_periods :: "real list"
  rd_phase :: "real list"
  rd_amplitude :: "real list"
  rd_power :: "real list"
  rd_frequencies :: "real list"

text \<open>
  \<open>eval_ridge(ridge_y, wlet, signal, periods, tvec, power_thresh, smoothing_wsize)\<close>.
  The Savitzky-Golay filter belongs to scipy, not to this module, so it is the parameter
  \<open>savgol\<close>, called as \<open>savgol x window_length polyorder\<close>; it may raise.  The variable
  \<open>smoothing\<close> of the source is assigned for a short ridge only and never read, so it
  is bound here (\<open>None\<close> when unassigned) and unused as well.  The division \<open>1 / sign_per\<close> is numpy's, which does not raise.
\<close>

definition eval_ridge ::
  "(real list \<Rightarrow> int \<Rightarrow> nat \<Rightarrow> py_error + real list) \<Rightarrow> int list \<Rightarrow> complex matrix \<Rightarrow>
   real list \<Rightarrow> real list \<Rightarrow> real list \<Rightarrow> real \<Rightarrow> int option \<Rightarrow> py_error + ridge_data" where
  "eval_ridge savgol ridge_y wlet signal periods tvec power_thresh smoothing_wsize =
     (let sigma2 = np_var signal;
          modulus = map (map (\<lambda>z. (cmod z) ^ 2 / sigma2)) wlet
      in
      py_bind (getitem tvec 1) (\<lambda>t1.
      py_bind (getitem tvec 0) (\<lambda>t0.
      let dt = t1 - t0;
          Nt = shape1 modulus
      in
      py_bind (take_idx periods ridge_y) (\<lambda>ridge_per.
      py_bind (take_idx2 wlet ridge_y (arange Nt)) (\<lambda>ridge_z.
      py_bind (take_idx2 modulus ridge_y (arange Nt)) (\<lambda>ridge_power.
      let inds = map (\<lambda>p. p > power_thresh) ridge_power in
      py_bind (np_mask ridge_per inds) (\<lambda>sign_per.
      py_bind (np_mask tvec inds) (\<lambda>ridge_t.
      py_bind (np_mask (map Arg ridge_z) inds) (\<lambda>phi.
      let ridge_phi = map (\<lambda>a. py_fmod a (2 * pi)) phi in
      py_bind (np_mask ridge_power inds) (\<lambda>sign_power.
      let sign_amplitudes = power_to_amplitude sign_per sign_power (sqrt sigma2) dt in
      py_bind
        (case smoothing_wsize of
           None \<Rightarrow> Inr sign_per
         | Some wsize \<Rightarrow>
             (let Ntt = int (length ridge_per);
                  smoothing = (if Ntt < wsize then Some (if Ntt mod 2 = 1 then Ntt else Ntt - 1)
                               else None)
              in py_bind (savgol ridge_per wsize 3) (\<lambda>smoothed. np_mask smoothed inds)))
        (\<lambda>sign_per'.
      if ridge_power = [] then Inl ValueError
      else Inr \<lparr>rd_index = [0..<length ridge_t],
                rd_time = ridge_t,
                rd_periods = sign_per',
                rd_phase = ridge_phi,
                rd_amplitude = sign_amplitudes,
                rd_power = sign_power,
                rd_frequencies = map (\<lambda>p. 1 / p) sign_per'\<rparr>)))))))))))"

text \<open>
  \<open>find_COI_crossing(rd)\<close>: \<open>rd.index[mask][-1]\<close> and \<open>rd.index[mask][0]\<close> raise IndexError
  when the mask selects nothing.  The right-hand cone multiplies the reversed time
  column and is compared with the periods position by position.
\<close>

definition find_COI_crossing :: "ridge_data \<Rightarrow> py_error + nat \<times> nat" where
  "find_COI_crossing rd =
     (let coi_left = map (\<lambda>t. Morlet_COI omega0 * t) (rd_time rd) in
      py_bind (np_mask (rd_index rd) (map2 (\<lambda>c p. \<not> (c > p)) coi_left (rd_periods rd))) (\<lambda>left.
      py_bind (getitem left (- 1)) (\<lambda>t_left.
      let coi_right = map (\<lambda>t. Morlet_COI omega0 * t) (rev (rd_time rd)) in
      py_bind (np_mask (rd_index rd) (map2 (\<lambda>c p. c < p) coi_right (rd_periods rd))) (\<lambda>right.
      py_bind (getitem right 0) (\<lambda>t_right.
      Inr (t_left, t_right))))))"

section \<open>Ridge detection by simulated annealing\<close>

text \<open>
  \<open>cost_func_anneal(ys, t_inds, landscape, l, m)\<close>.  The sums are Python sums over numpy
  arrays; the final division by \<open>N = len(ys)\<close> raises ZeroDivisionError for an empty
  ridge.
\<close>

definition cost_func_anneal ::
  "int list \<Rightarrow> int list \<Rightarrow> real matrix \<Rightarrow> real \<Rightarrow> real \<Rightarrow> py_error + real" where
  "cost_func_anneal ys t_inds landscape l m =
     (case take_idx2 landscape ys t_inds of
        Inl e \<Rightarrow> Inl e
      | Inr vals \<Rightarrow>
          (let N = length ys;
               D = - sum_list vals;
               S1 = l * real_of_int (sum_list (map abs (np_diff ys)));
               S2 = m * real_of_int (sum_list (map abs (np_diff (np_diff ys))))
           in if N = 0 then Inl ZeroDivisionError else Inr ((D + S1 + S2) / real N)))"

text \<open>
  The possible jumps: \<open>incr = np.arange(-mx_jump, mx_jump + 1)\<close> with the zero removed.
\<close>

definition incr :: "int \<Rightarrow> int list" where
  "incr mx_jump = filter (\<lambda>i. i \<noteq> 0) [- mx_jump..mx_jump]"

text \<open>
  The random numbers one iteration consumes: the position from
  \<open>randint(0, len(ys))\<close>, the jump from \<open>choice(incr)\<close> and the sample from \<open>uniform()\<close>.
  The generator is outside the module, so a run takes the list of its draws, one per
  iteration: \<open>Nsteps\<close> is the length of that list.  A draw is valid when each number
  lies in the range its generator call returns; \<open>choice\<close> is only called on a nonempty
  \<open>incr\<close>.
\<close>

record draw =
  d_pos :: nat
  d_eps :: int
  d_u :: real

definition valid_draw :: "nat \<Rightarrow> int \<Rightarrow> draw \<Rightarrow> bool" where
  "valid_draw Nt mx_jump d =
     (d_pos d < Nt \<and> (incr mx_jump \<noteq> [] \<longrightarrow> d_eps d \<in> set (incr mx_jump)) \<and>
      0 \<le> d_u d \<and> d_u d < 1)"

text \<open>
  The step proposed at the row \<open>y\<close>: one row inwards at either edge of the scale
  domain, otherwise the drawn jump; \<open>choice\<close> raises ValueError on an empty \<open>incr\<close>.
\<close>

definition propose :: "int \<Rightarrow> int \<Rightarrow> int \<Rightarrow> int \<Rightarrow> py_error + int" where
  "propose Ns mx_jump y e =
     (if y \<ge> Ns - mx_jump - 1 then Inr (- 1)
      else if y < mx_jump then Inr 1
      else if incr mx_jump = [] then Inl ValueError
      else Inr e)"

text \<open>
  \<open>np.exp(-(F_c - F) / T_k)\<close>, evaluated only when \<open>F_c > F\<close>: at \<open>T_k = 0\<close> the float
  quotient is minus infinity and its exponential is zero.
\<close>

definition boltzmann :: "real \<Rightarrow> real \<Rightarrow> real" where
  "boltzmann dF T = (if T = 0 then 0 else exp (- dF / T))"

text \<open>The flag \<open>accept\<close> at the end of the acceptance test.\<close>

definition metropolis :: "real \<Rightarrow> real \<Rightarrow> real \<Rightarrow> real \<Rightarrow> bool" where
  "metropolis F Fc T u = (if Fc > F then \<not> (u > boltzmann (Fc - F) T) else True)"

text \<open>
  The loop variables of \<open>find_ridge_anneal\<close>; \<open>st_F_c\<close> is unbound before the first
  iteration, and \<open>st_printed\<close> collects what \<open>print(T_k)\<close> writes, which is the
  temperature each acceptance test has used.
\<close>

record anneal_state =
  st_ys :: "int list"
  st_T_k :: real
  st_Nrej :: nat
  st_F_c :: "real option"
  st_printed :: "real list"

text \<open>
  The body of the loop, at iteration \<open>k\<close>; \<open>T_ini\<close> and \<open>curve_pen\<close> are the values
  already multiplied by \<open>tfac\<close>.
\<close>

definition anneal_step ::
  "real matrix \<Rightarrow> int \<Rightarrow> real \<Rightarrow> real \<Rightarrow> nat \<Rightarrow> anneal_state \<Rightarrow> draw \<Rightarrow>
   py_error + anneal_state" where
  "anneal_step landscape mx_jump T_ini curve_pen k s d =
     (let t_inds = arange (shape1 landscape);
          Ns = int (shape0 landscape);
          ys = st_ys s;
          pos = d_pos d
      in
      case cost_func_anneal ys t_inds landscape 0 curve_pen of Inl e \<Rightarrow> Inl e | Inr F \<Rightarrow>
      case propose Ns mx_jump (ys ! pos) (d_eps d) of Inl e \<Rightarrow> Inl e | Inr eps \<Rightarrow>
      let ys' = ys[pos := ys ! pos + eps] in
      case cost_func_anneal ys' t_inds landscape 0 curve_pen of Inl e \<Rightarrow> Inl e | Inr Fc \<Rightarrow>
      let accept = metropolis F Fc (st_T_k s) (d_u d) in
      Inr \<lparr>st_ys = (if accept then ys' else ys'[pos := ys' ! pos - eps]),
           st_T_k = T_ini / ln (2 + real k),
           st_Nrej = (if accept then 0 else st_Nrej s + 1),
           st_F_c = Some Fc,
           st_printed = st_printed s @ [st_T_k s]\<rparr>)"

fun anneal_loop ::
  "real matrix \<Rightarrow> int \<Rightarrow> real \<Rightarrow> real \<Rightarrow> nat \<Rightarrow> anneal_state \<Rightarrow> draw list \<Rightarrow>
   py_error + anneal_state" where
  "anneal_loop landscape mx_jump T_ini curve_pen k s [] = Inr s"
| "anneal_loop landscape mx_jump T_ini curve_pen k s (d # ds) =
     (case anneal_step landscape mx_jump T_ini curve_pen k s d of
        Inl e \<Rightarrow> Inl e
      | Inr s' \<Rightarrow> anneal_loop landscape mx_jump T_ini curve_pen (Suc k) s' ds)"

text \<open>The state in which \<open>find_ridge_anneal\<close> leaves its loop.\<close>

definition anneal_run ::
  "real matrix \<Rightarrow> int \<Rightarrow> real \<Rightarrow> draw list \<Rightarrow> int \<Rightarrow> real \<Rightarrow> py_error + anneal_state" where
  "anneal_run landscape y0 T_ini draws mx_jump curve_pen =
     (let Nt = shape1 landscape;
          tfac = 1 / 100;
          T_ini' = T_ini * tfac;
          curve_pen' = curve_pen * tfac
      in anneal_loop landscape mx_jump T_ini' curve_pen' 0
           \<lparr>st_ys = replicate Nt y0, st_T_k = T_ini', st_Nrej = 0, st_F_c = None,
            st_printed = []\<rparr>
           draws)"

text \<open>
  \<open>find_ridge_anneal(landscape, y0, T_ini, Nsteps, mx_jump, curve_pen)\<close> returns the ridge
  and the last candidate cost; with no iteration at all \<open>F_c\<close> is read unbound.
\<close>

definition find_ridge_anneal ::
  "real matrix \<Rightarrow> int \<Rightarrow> real \<Rightarrow> draw list \<Rightarrow> int \<Rightarrow> real \<Rightarrow> py_error + int list \<times> real" where
  "find_ridge_anneal landscape y0 T_ini draws mx_jump curve_pen =
     (case anneal_run landscape y0 T_ini draws mx_jump curve_pen of
        Inl e \<Rightarrow> Inl e
      | Inr s \<Rightarrow> (case st_F_c s of None \<Rightarrow> Inl NameError | Some Fc \<Rightarrow> Inr (st_ys s, Fc)))"

section \<open>Filters and detrending\<close>

text \<open>
  \<open>smooth(x, window_len, window, data)\<close>.  The test \<open>window_len % 2 is 0\<close> compares with
  the cached small integer, so it holds exactly for an even length.  With
  \<open>window = "extern"\<close> and no \<open>data\<close> the call \<open>w.sum()\<close> fails on \<open>None\<close>.
\<close>

definition smooth ::
  "real list \<Rightarrow> int \<Rightarrow> string \<Rightarrow> real list option \<Rightarrow> py_error + real list" where
  "smooth x window_len window data =
     (let window_len = (case data of None \<Rightarrow> window_len | Some w \<Rightarrow> int (length w));
          window = (case data of None \<Rightarrow> window | Some w \<Rightarrow> ''extern'')
      in
      if int (length x) < window_len then Inl ValueError
      else if window_len < 3 then Inl ValueError
      else if window_len mod 2 = 0 then Inl ValueError
      else if window \<notin> set [''flat'', ''extern''] then Inl ValueError
      else
        let s = py_slice_rev x (window_len - 1) 0 @ x @ py_slice_rev x (- 1) (- window_len) in
        case (if window = ''flat'' then Inr (replicate (nat window_len) 1)
              else (case data of None \<Rightarrow> Inl AttributeError | Some w \<Rightarrow> Inr w))
        of Inl e \<Rightarrow> Inl e | Inr w \<Rightarrow>
        case convolve_valid (map (\<lambda>c. c / sum_list w) w) s of Inl e \<Rightarrow> Inl e | Inr y \<Rightarrow>
        Inr (py_slice y ((window_len - 1) div 2) (int (length y) - (window_len - 1) div 2)))"

text \<open>\<open>sinc_filter(M, f_c)\<close>: the Blackman-windowed sinc kernel of length \<open>M + 1\<close>.\<close>

definition sinc_filter :: "int \<Rightarrow> real \<Rightarrow> py_error + real list" where
  "sinc_filter M f_c =
     (if M mod 2 \<noteq> 0 then Inl AssertionError
      else
        let res = map (\<lambda>x.
                    if real_of_int x = real_of_int M / 2 then 2 * pi * f_c
                    else sin (2 * pi * f_c * (real_of_int x - real_of_int M / 2))
                           / (real_of_int x - real_of_int M / 2)
                         * (42 / 100 - 5 / 10 * cos (2 * pi * real_of_int x / real_of_int M)
                            + 8 / 100 * cos (4 * pi * real_of_int x / real_of_int M)))
                  [0..M]
        in Inr (map (\<lambda>r. r / sum_list res) res))"

text \<open>
  \<open>sinc_smooth(raw_signal, T_c, dt, M)\<close>; \<open>dt / T_c\<close> is a division of Python floats.
\<close>

definition sinc_smooth :: "real list \<Rightarrow> real \<Rightarrow> real \<Rightarrow> int option \<Rightarrow> py_error + real list" where
  "sinc_smooth raw_signal T_c dt M =
     (if T_c = 0 then Inl ZeroDivisionError
      else
        let f_c = dt / T_c;
            M' = (case M of
                    Some m \<Rightarrow> m
                  | None \<Rightarrow>
                      (let m = int (length raw_signal) - 1
                       in if m mod 2 \<noteq> 0 then m - 1 else m))
        in case sinc_filter M' f_c of
             Inl e \<Rightarrow> Inl e
           | Inr w \<Rightarrow> smooth raw_signal 11 ''flat'' (Some w))"

text \<open>
  \<open>sliding_window_amplitude(signal, window_size, SGsmooth)\<close>.  The rolling matrix has one
  row per sample: \<open>b_size\<close> growing windows anchored at the left edge, the full windows,
  and \<open>b_size\<close> shrinking windows anchored at the right edge; the NaN padding of the edge
  rows is skipped by \<open>nanmax\<close> and \<open>nanmin\<close>, so each row is kept here as the window it
  holds.  A window longer than the signal plus one gives a negative shape, which
  \<open>as_strided\<close> rejects.
\<close>

definition rolling_rows :: "real list \<Rightarrow> nat \<Rightarrow> real list list" where
  "rolling_rows vector window_size =
     (let n = length vector;
          b_size = window_size div 2;
          b_left = map (\<lambda>i. take (b_size + 1 + i) vector) [0..<b_size];
          aa = map (\<lambda>i. take window_size (drop i vector)) [0..<n + 1 - window_size];
          b_right = map (\<lambda>r. drop (n - (b_size + 1 + (b_size - 1 - r))) vector) [0..<b_size]
      in b_left @ aa @ b_right)"

definition sliding_window_amplitude ::
  "(real list \<Rightarrow> int \<Rightarrow> nat \<Rightarrow> py_error + real list) \<Rightarrow> real list \<Rightarrow> int \<Rightarrow> bool \<Rightarrow>
   py_error + real list" where
  "sliding_window_amplitude savgol signal window_size SGsmooth =
     (let window_size = (if window_size mod 2 \<noteq> 1 then window_size + 1 else window_size) in
      if window_size < 0 \<or> int (length signal) - window_size + 1 < 0 then Inl ValueError
      else
        let rm = rolling_rows signal (nat window_size);
            amplitudes = map (\<lambda>row. (Max (set row) - Min (set row)) / 2) rm
        in if SGsmooth then savgol amplitudes window_size 3 else Inr amplitudes)"

text \<open>\<open>normalize_with_envelope(dsignal, window_size)\<close>.\<close>

definition normalize_with_envelope ::
  "(real list \<Rightarrow> int \<Rightarrow> nat \<Rightarrow> py_error + real list) \<Rightarrow> real list \<Rightarrow> int \<Rightarrow>
   py_error + real list" where
  "normalize_with_envelope savgol dsignal window_size =
     (let signal = map (\<lambda>x. x - np_mean dsignal) dsignal in
      case sliding_window_amplitude savgol signal window_size True of
        Inl e \<Rightarrow> Inl e
      | Inr env \<Rightarrow> Inr (map2 (\<lambda>e d. 1 / e * d) env dsignal))"

section \<open>Properties of the scale conversion\<close>

lemma admissible_factor_pos: "0 < om + sqrt (2 + om ^ 2)"
proof -
  have "\<bar>om\<bar> = sqrt (om ^ 2)" by simp
  also have "\<dots> < sqrt (2 + om ^ 2)" by (rule real_sqrt_less_mono) simp
  finally have "\<bar>om\<bar> < sqrt (2 + om ^ 2)" .
  then show ?thesis by linarith
qed

text \<open>
  Claim C7.  \<open>scales_from_periods\<close> maps each period \<open>p\<close> to
  \<open>(omega0 + sqrt (2 + omega0\<^sup>2)) * p * sfreq / (4 * pi)\<close>, and for a positive sampling
  frequency the scale is strictly increasing in the period: a strictly smaller period
  anywhere in the array gives a strictly smaller scale.
\<close>

theorem scales_from_periods_strict_mono:
  "length (scales_from_periods periods sfreq om) = length periods \<and>
   (\<forall>i < length periods.
      scales_from_periods periods sfreq om ! i =
        (om + sqrt (2 + om ^ 2)) * (periods ! i) * sfreq / (4 * pi)) \<and>
   (0 < sfreq \<longrightarrow>
      (\<forall>i < length periods. \<forall>j < length periods.
         periods ! i < periods ! j \<longrightarrow>
           scales_from_periods periods sfreq om ! i < scales_from_periods periods sfreq om ! j))"
proof -
  let ?c = "om + sqrt (2 + om ^ 2)"
  have c: "0 < ?c" by (rule admissible_factor_pos)
  have mono: "?c * p * sfreq / (4 * pi) < ?c * q * sfreq / (4 * pi)"
    if "0 < sfreq" "p < q" for p q :: real
  proof -
    have "?c * p < ?c * q" using c that(2) by simp
    then have "?c * p * sfreq < ?c * q * sfreq"
      using that(1) by (rule mult_strict_right_mono)
    then show ?thesis by (simp add: divide_strict_right_mono)
  qed
  show ?thesis
    unfolding scales_from_periods_def using mono by simp
qed

theorem scales_from_periods_strict_mono_witness:
  "(0::real) < 1 \<and> [24, 48] ! 0 < ([24, 48] ! 1 :: real) \<and>
   scales_from_periods [24, 48] 1 omega0 ! 0 = (omega0 + sqrt (2 + omega0 ^ 2)) * 24 * 1 / (4 * pi) \<and>
   scales_from_periods [24, 48] 1 omega0 ! 0 < scales_from_periods [24, 48] 1 omega0 ! 1"
proof -
  note inst = scales_from_periods_strict_mono [of "[24, 48]" 1 omega0]
  have "scales_from_periods [24, 48] 1 omega0 ! 0 =
      (omega0 + sqrt (2 + omega0 ^ 2)) * ([24, 48] ! 0) * 1 / (4 * pi)"
    by (rule inst [THEN conjunct2, THEN conjunct1, rule_format]) simp
  moreover have "scales_from_periods [24, 48] 1 omega0 ! 0 < scales_from_periods [24, 48] 1 omega0 ! 1"
    by (rule inst [THEN conjunct2, THEN conjunct2, rule_format]) simp_all
  ultimately show ?thesis by simp
qed

section \<open>The annealing loop: the printed temperatures and a sample run\<close>

lemma anneal_step_printed:
  "anneal_step L mx T c k s d = Inr s' \<Longrightarrow>
     st_printed s' = st_printed s @ [st_T_k s] \<and> st_T_k s' = T / ln (2 + real k)"
  by (auto simp: anneal_step_def Let_def split: sum.splits)

lemma anneal_loop_printed:
  "anneal_loop L mx T c k s ds = Inr s' \<Longrightarrow>
     st_printed s' =
       st_printed s @ take (length ds) (st_T_k s # map (\<lambda>j. T / ln (2 + real j)) [k..<k + length ds])"
proof (induction ds arbitrary: k s)
  case Nil
  then show ?case by simp
next
  case (Cons d ds)
  from Cons.prems obtain s1 where
    step: "anneal_step L mx T c k s d = Inr s1" and
    rest: "anneal_loop L mx T c (Suc k) s1 ds = Inr s'"
    by (auto split: sum.splits)
  have upt: "[k..<k + length (d # ds)] = k # [Suc k..<Suc k + length ds]"
    by (simp add: upt_conv_Cons del: upt_Suc)
  have "st_printed s' = st_printed s1 @
      take (length ds) (st_T_k s1 # map (\<lambda>j. T / ln (2 + real j)) [Suc k..<Suc k + length ds])"
    by (rule Cons.IH [OF rest])
  also have "st_printed s1 = st_printed s @ [st_T_k s]"
    using anneal_step_printed [OF step] by simp
  also have "st_T_k s1 = T / ln (2 + real k)"
    using anneal_step_printed [OF step] by simp
  finally show ?case
    unfolding upt by simp
qed

lemma anneal_run_printed:
  assumes "anneal_run L y0 T draws mx cp = Inr s"
  shows "st_printed s =
     take (length draws) (T * (1 / 100) # map (\<lambda>j. T * (1 / 100) / ln (2 + real j)) [0..<length draws])"
  using anneal_loop_printed [OF assms [unfolded anneal_run_def Let_def]] by simp

text \<open>A run of three iterations on a landscape of four rows and three columns.\<close>

lemmas np_eval =
  take_idx2_def take_idx_def getitem2_def getitem_def np_index_def shape0_def shape1_def
  arange_def np_diff_def cost_func_anneal_def propose_def metropolis_def
  anneal_step_def anneal_run_def Let_def

lemma upt3: "[0..<3] = [0, 1, 2]"
  by (simp add: upt_conv_Cons)

lemma anneal_run_example:
  "anneal_run [[0, 0, 0], [1, 1, 1], [2, 2, 2], [3, 3, 3]] 0 100
     [\<lparr>d_pos = 0, d_eps = 1, d_u = 1 / 2\<rparr>, \<lparr>d_pos = 1, d_eps = 1, d_u = 1 / 2\<rparr>,
      \<lparr>d_pos = 2, d_eps = 1, d_u = 1 / 2\<rparr>] 2 0 =
   Inr \<lparr>st_ys = [1, 1, 1], st_T_k = 1 / ln 4, st_Nrej = 0, st_F_c = Some (- 1),
        st_printed = [1, 1 / ln 2, 1 / ln 3]\<rparr>"
  by (simp add: np_eval upt3)

section \<open>Properties of the annealing: the ridge stays on the grid\<close>

lemma set_incr: "set (incr mx) = {i. - mx \<le> i \<and> i \<le> mx \<and> i \<noteq> 0}"
  by (auto simp: incr_def)

lemma incr_nonempty: "1 \<le> mx \<Longrightarrow> incr mx \<noteq> []"
proof -
  assume "1 \<le> mx"
  then have "1 \<in> set (incr mx)" by (simp add: set_incr)
  then show ?thesis by auto
qed

lemma propose_cases:
  assumes "mx + 2 \<le> Ns" "0 \<le> y" "y < Ns"
    and "incr mx \<noteq> [] \<longrightarrow> e \<in> set (incr mx)"
    and "propose Ns mx y e = Inr eps"
  shows "eps \<noteq> 0 \<and> 0 \<le> y + eps \<and> y + eps < Ns \<and>
     (if y \<ge> Ns - mx - 1 then eps = - 1
      else if y < mx then eps = 1
      else eps = e \<and> \<bar>eps\<bar> \<le> mx)"
  using assms by (auto simp: propose_def set_incr split: if_splits)

lemma collect_Inr:
  "(\<forall>x \<in> set xs. \<exists>v. x = Inr v) \<Longrightarrow> \<exists>vs. collect xs = Inr vs"
  by (induction xs) auto

lemma getitem2_Inr:
  "0 \<le> y \<Longrightarrow> y < int (shape0 L) \<Longrightarrow> 0 \<le> t \<Longrightarrow> t < int (shape1 L) \<Longrightarrow>
     \<exists>v. getitem2 L y t = Inr v"
  by (simp add: getitem2_def np_index_def)

lemma cost_func_anneal_Inr:
  assumes "length ys = shape1 L" "ys \<noteq> []"
    and "\<forall>y \<in> set ys. 0 \<le> y \<and> y < int (shape0 L)"
  shows "\<exists>F. cost_func_anneal ys (arange (shape1 L)) L l m = Inr F"
proof -
  have "\<forall>x \<in> set (map2 (getitem2 L) ys (arange (shape1 L))). \<exists>v. x = Inr v"
  proof
    fix x assume "x \<in> set (map2 (getitem2 L) ys (arange (shape1 L)))"
    then obtain y t where "(y, t) \<in> set (zip ys (arange (shape1 L)))" "x = getitem2 L y t"
      by auto
    then have "y \<in> set ys" "t \<in> set (arange (shape1 L))"
      by (auto dest: set_zip_leftD set_zip_rightD)
    then have "0 \<le> y" "y < int (shape0 L)" "0 \<le> t" "t < int (shape1 L)"
      using assms(3) by (auto simp: arange_def)
    then show "\<exists>v. x = Inr v"
      using \<open>x = getitem2 L y t\<close> getitem2_Inr by simp
  qed
  then obtain vs where "collect (map2 (getitem2 L) ys (arange (shape1 L))) = Inr vs"
    using collect_Inr by blast
  moreover have "0 < shape1 L" using assms(1,2) by (cases ys) auto
  ultimately show ?thesis
    using assms(1) by (simp add: cost_func_anneal_def take_idx2_def arange_def Let_def)
qed

lemma anneal_step_ys:
  assumes "anneal_step L mx T c k s d = Inr s'"
  obtains eps where "propose (int (shape0 L)) mx (st_ys s ! d_pos d) (d_eps d) = Inr eps"
    and "st_ys s' = (st_ys s)[d_pos d := st_ys s ! d_pos d + eps] \<or>
         st_ys s' = ((st_ys s)[d_pos d := st_ys s ! d_pos d + eps])
                      [d_pos d := (st_ys s)[d_pos d := st_ys s ! d_pos d + eps] ! d_pos d - eps]"
  using assms by (auto simp: anneal_step_def Let_def split: sum.splits if_splits)

lemma revert_update:
  "i < length ys \<Longrightarrow> (ys[i := ys ! i + eps])[i := ys[i := ys ! i + eps] ! i - eps] = (ys :: int list)"
  by (simp add: list_update_same_conv)

lemma anneal_step_in_range:
  assumes bound: "mx + 2 \<le> int (shape0 L)"
    and len: "length (st_ys s) = shape1 L"
    and inv: "\<forall>y \<in> set (st_ys s). 0 \<le> y \<and> y < int (shape0 L)"
    and draw: "valid_draw (shape1 L) mx d"
    and step: "anneal_step L mx T c k s d = Inr s'"
  shows "length (st_ys s') = shape1 L \<and> (\<forall>y \<in> set (st_ys s'). 0 \<le> y \<and> y < int (shape0 L))"
proof -
  let ?ys = "st_ys s" and ?p = "d_pos d"
  have pos: "?p < length ?ys" using draw len by (simp add: valid_draw_def)
  then have here: "0 \<le> ?ys ! ?p" "?ys ! ?p < int (shape0 L)"
    using inv by (auto simp: all_set_conv_all_nth)
  from step obtain eps where
    pp: "propose (int (shape0 L)) mx (?ys ! ?p) (d_eps d) = Inr eps" and
    res: "st_ys s' = ?ys[?p := ?ys ! ?p + eps] \<or>
          st_ys s' = (?ys[?p := ?ys ! ?p + eps])[?p := ?ys[?p := ?ys ! ?p + eps] ! ?p - eps]"
    by (rule anneal_step_ys)
  have e: "incr mx \<noteq> [] \<longrightarrow> d_eps d \<in> set (incr mx)"
    using draw by (simp add: valid_draw_def)
  have inside: "0 \<le> ?ys ! ?p + eps \<and> ?ys ! ?p + eps < int (shape0 L)"
    using propose_cases [OF bound here e pp] by simp
  have cand: "\<forall>y \<in> set (?ys[?p := ?ys ! ?p + eps]). 0 \<le> y \<and> y < int (shape0 L)"
    using inv inside by (auto dest!: set_update_subset_insert [THEN subsetD])
  from res show ?thesis
  proof
    assume "st_ys s' = ?ys[?p := ?ys ! ?p + eps]"
    then show ?thesis using cand len by simp
  next
    assume "st_ys s' = (?ys[?p := ?ys ! ?p + eps])[?p := ?ys[?p := ?ys ! ?p + eps] ! ?p - eps]"
    then have "st_ys s' = ?ys" using revert_update [OF pos] by simp
    then show ?thesis using inv len by simp
  qed
qed

lemma anneal_loop_in_range:
  assumes "mx + 2 \<le> int (shape0 L)"
    and "\<forall>d \<in> set ds. valid_draw (shape1 L) mx d"
    and "length (st_ys s) = shape1 L"
    and "\<forall>y \<in> set (st_ys s). 0 \<le> y \<and> y < int (shape0 L)"
    and "anneal_loop L mx T c k s ds = Inr s'"
  shows "length (st_ys s') = shape1 L \<and> (\<forall>y \<in> set (st_ys s'). 0 \<le> y \<and> y < int (shape0 L))"
  using assms(2-)
proof (induction ds arbitrary: k s)
  case Nil
  then show ?case by simp
next
  case (Cons d ds)
  from Cons.prems(4) obtain s1 where
    step: "anneal_step L mx T c k s d = Inr s1" and
    rest: "anneal_loop L mx T c (Suc k) s1 ds = Inr s'"
    by (auto split: sum.splits)
  have d: "valid_draw (shape1 L) mx d" and ds: "\<forall>d \<in> set ds. valid_draw (shape1 L) mx d"
    using Cons.prems(1) by simp_all
  have "length (st_ys s1) = shape1 L \<and> (\<forall>y \<in> set (st_ys s1). 0 \<le> y \<and> y < int (shape0 L))"
    by (rule anneal_step_in_range [OF assms(1) Cons.prems(2) Cons.prems(3) d step])
  then show ?case
    using Cons.IH [OF ds _ _ rest] by blast
qed

lemma anneal_step_total:
  assumes bound: "mx + 2 \<le> int (shape0 L)" and mx: "1 \<le> mx"
    and len: "length (st_ys s) = shape1 L"
    and inv: "\<forall>y \<in> set (st_ys s). 0 \<le> y \<and> y < int (shape0 L)"
    and draw: "valid_draw (shape1 L) mx d"
  shows "\<exists>s'. anneal_step L mx T c k s d = Inr s'"
proof -
  let ?ys = "st_ys s" and ?p = "d_pos d"
  have pos: "?p < length ?ys" using draw len by (simp add: valid_draw_def)
  then have ne: "?ys \<noteq> []" by auto
  have here: "0 \<le> ?ys ! ?p" "?ys ! ?p < int (shape0 L)"
    using inv pos by (auto simp: all_set_conv_all_nth)
  obtain F where F: "cost_func_anneal ?ys (arange (shape1 L)) L 0 c = Inr F"
    using cost_func_anneal_Inr [OF len ne inv] by blast
  have "\<exists>eps. propose (int (shape0 L)) mx (?ys ! ?p) (d_eps d) = Inr eps"
    using incr_nonempty [OF mx] by (simp add: propose_def)
  then obtain eps where pp: "propose (int (shape0 L)) mx (?ys ! ?p) (d_eps d) = Inr eps" ..
  have e: "incr mx \<noteq> [] \<longrightarrow> d_eps d \<in> set (incr mx)"
    using draw by (simp add: valid_draw_def)
  have inside: "0 \<le> ?ys ! ?p + eps \<and> ?ys ! ?p + eps < int (shape0 L)"
    using propose_cases [OF bound here e pp] by simp
  let ?c = "?ys[?p := ?ys ! ?p + eps]"
  have cand: "\<forall>y \<in> set ?c. 0 \<le> y \<and> y < int (shape0 L)"
    using inv inside by (auto dest!: set_update_subset_insert [THEN subsetD])
  have "length ?c = shape1 L" "?c \<noteq> []" using len ne by simp_all
  then obtain Fc where Fc: "cost_func_anneal ?c (arange (shape1 L)) L 0 c = Inr Fc"
    using cost_func_anneal_Inr [OF _ _ cand] by blast
  show ?thesis
    using F pp Fc by (simp add: anneal_step_def Let_def)
qed

lemma anneal_loop_total:
  assumes "mx + 2 \<le> int (shape0 L)" "1 \<le> mx"
    and "\<forall>d \<in> set ds. valid_draw (shape1 L) mx d"
    and "length (st_ys s) = shape1 L"
    and "\<forall>y \<in> set (st_ys s). 0 \<le> y \<and> y < int (shape0 L)"
  shows "\<exists>s'. anneal_loop L mx T c k s ds = Inr s'"
  using assms(3-)
proof (induction ds arbitrary: k s)
  case Nil
  then show ?case by simp
next
  case (Cons d ds)
  have d: "valid_draw (shape1 L) mx d" and ds: "\<forall>d \<in> set ds. valid_draw (shape1 L) mx d"
    using Cons.prems(1) by simp_all
  obtain s1 where step: "anneal_step L mx T c k s d = Inr s1"
    using anneal_step_total [OF assms(1,2) Cons.prems(2,3) d] by blast
  have "length (st_ys s1) = shape1 L \<and> (\<forall>y \<in> set (st_ys s1). 0 \<le> y \<and> y < int (shape0 L))"
    by (rule anneal_step_in_range [OF assms(1) Cons.prems(2,3) d step])
  then obtain s' where "anneal_loop L mx T c (Suc k) s1 ds = Inr s'"
    using Cons.IH [OF ds] by blast
  then show ?case using step by simp
qed

text \<open>
  Claim C6.  On a landscape with \<open>P\<close> rows, \<open>mx_jump + 2 \<le> P\<close> and \<open>0 \<le> y0 < P\<close>, after
  every iteration (that is, after every prefix of the draws) the ridge still has one
  entry per column and every entry is a row index in \<open>[0, P)\<close>; with \<open>mx_jump \<ge> 1\<close> the
  run raises no exception.  A proposed step is never zero and keeps the row in range:
  it is \<open>-1\<close> at the upper edge, \<open>+1\<close> at the lower edge, and otherwise the drawn jump,
  whose size is at most \<open>mx_jump\<close>.
\<close>

theorem anneal_ridge_in_bounds:
  assumes "mx + 2 \<le> int (shape0 L)" "0 \<le> y0" "y0 < int (shape0 L)"
    and "\<forall>d \<in> set draws. valid_draw (shape1 L) mx d"
  shows "(\<forall>n \<le> length draws. \<forall>s. anneal_run L y0 T (take n draws) mx cp = Inr s \<longrightarrow>
            length (st_ys s) = shape1 L \<and>
            (\<forall>y \<in> set (st_ys s). 0 \<le> y \<and> y < int (shape0 L))) \<and>
         (1 \<le> mx \<longrightarrow> (\<exists>s. anneal_run L y0 T draws mx cp = Inr s)) \<and>
         (\<forall>y e eps. 0 \<le> y \<and> y < int (shape0 L) \<and> (incr mx \<noteq> [] \<longrightarrow> e \<in> set (incr mx)) \<and>
            propose (int (shape0 L)) mx y e = Inr eps \<longrightarrow>
            eps \<noteq> 0 \<and> 0 \<le> y + eps \<and> y + eps < int (shape0 L) \<and>
            (if y \<ge> int (shape0 L) - mx - 1 then eps = - 1
             else if y < mx then eps = 1
             else eps = e \<and> \<bar>eps\<bar> \<le> mx))"
proof -
  let ?s0 = "\<lparr>st_ys = replicate (shape1 L) y0, st_T_k = T * (1 / 100), st_Nrej = 0,
              st_F_c = None, st_printed = []\<rparr>"
  have len0: "length (st_ys ?s0) = shape1 L" by simp
  have inv0: "\<forall>y \<in> set (st_ys ?s0). 0 \<le> y \<and> y < int (shape0 L)"
    using assms(2,3) by simp
  have a: "length (st_ys s) = shape1 L \<and> (\<forall>y \<in> set (st_ys s). 0 \<le> y \<and> y < int (shape0 L))"
    if "n \<le> length draws" "anneal_run L y0 T (take n draws) mx cp = Inr s" for n s
  proof -
    have v: "\<forall>d \<in> set (take n draws). valid_draw (shape1 L) mx d"
      using assms(4) by (auto dest: in_set_takeD)
    have run: "anneal_loop L mx (T * (1 / 100)) (cp * (1 / 100)) 0 ?s0 (take n draws) = Inr s"
      using that(2) by (simp add: anneal_run_def Let_def)
    show ?thesis
      by (rule anneal_loop_in_range [OF assms(1) v len0 inv0 run])
  qed
  have b: "\<exists>s. anneal_run L y0 T draws mx cp = Inr s" if "1 \<le> mx"
    using anneal_loop_total [OF assms(1) that assms(4) len0 inv0]
    by (simp add: anneal_run_def Let_def)
  have c: "eps \<noteq> 0 \<and> 0 \<le> y + eps \<and> y + eps < int (shape0 L) \<and>
            (if y \<ge> int (shape0 L) - mx - 1 then eps = - 1
             else if y < mx then eps = 1
             else eps = e \<and> \<bar>eps\<bar> \<le> mx)"
    if "0 \<le> y" "y < int (shape0 L)" "incr mx \<noteq> [] \<longrightarrow> e \<in> set (incr mx)"
       "propose (int (shape0 L)) mx y e = Inr eps" for y e eps
    by (rule propose_cases [OF assms(1) that])
  show ?thesis using a b c by blast
qed

lemma valid_draw_example: "valid_draw 3 2 \<lparr>d_pos = p, d_eps = 1, d_u = 1 / 2\<rparr>" if "p < 3"
  using that by (simp add: valid_draw_def set_incr)

theorem anneal_ridge_in_bounds_witness:
  "(2 :: int) + 2 \<le> int (shape0 [[0, 0, 0], [1, 1, 1], [2, 2, 2], [3, 3, 3 :: real]]) \<and>
   valid_draw (shape1 [[0, 0, 0], [1, 1, 1], [2, 2, 2], [3, 3, 3 :: real]]) 2
     \<lparr>d_pos = 0, d_eps = 1, d_u = 1 / 2\<rparr> \<and>
   valid_draw (shape1 [[0, 0, 0], [1, 1, 1], [2, 2, 2], [3, 3, 3 :: real]]) 2
     \<lparr>d_pos = 1, d_eps = 1, d_u = 1 / 2\<rparr> \<and>
   valid_draw (shape1 [[0, 0, 0], [1, 1, 1], [2, 2, 2], [3, 3, 3 :: real]]) 2
     \<lparr>d_pos = 2, d_eps = 1, d_u = 1 / 2\<rparr> \<and>
   map_sum id st_ys
     (anneal_run [[0, 0, 0], [1, 1, 1], [2, 2, 2], [3, 3, 3]] 0 100
        [\<lparr>d_pos = 0, d_eps = 1, d_u = 1 / 2\<rparr>, \<lparr>d_pos = 1, d_eps = 1, d_u = 1 / 2\<rparr>,
         \<lparr>d_pos = 2, d_eps = 1, d_u = 1 / 2\<rparr>] 2 0) = Inr [1, 1, 1] \<and>
   list_all (\<lambda>y. 0 \<le> y \<and> y < int (shape0 [[0, 0, 0], [1, 1, 1], [2, 2, 2], [3, 3, 3 :: real]]))
     [1, 1, 1] \<and>
   propose (int (shape0 [[0, 0, 0], [1, 1, 1], [2, 2, 2], [3, 3, 3 :: real]])) 2 0 1 = Inr 1"
proof -
  let ?L = "[[0, 0, 0], [1, 1, 1], [2, 2, 2], [3, 3, 3 :: real]]"
  let ?ds = "[\<lparr>d_pos = 0, d_eps = 1, d_u = 1 / 2\<rparr>, \<lparr>d_pos = 1, d_eps = 1, d_u = 1 / 2\<rparr>,
      \<lparr>d_pos = 2, d_eps = 1, d_u = 1 / 2\<rparr>]"
  have sh: "shape0 ?L = 4" "shape1 ?L = 3" by (simp_all add: shape0_def shape1_def)
  have h1: "(2 :: int) + 2 \<le> int (shape0 ?L)" "(0 :: int) \<le> 0" "(0 :: int) < int (shape0 ?L)"
    by (simp_all add: sh)
  have v: "valid_draw (shape1 ?L) 2 \<lparr>d_pos = 0, d_eps = 1, d_u = 1 / 2\<rparr>"
      "valid_draw (shape1 ?L) 2 \<lparr>d_pos = 1, d_eps = 1, d_u = 1 / 2\<rparr>"
      "valid_draw (shape1 ?L) 2 \<lparr>d_pos = 2, d_eps = 1, d_u = 1 / 2\<rparr>"
    unfolding sh by (rule valid_draw_example; simp)+
  then have h2: "\<forall>d \<in> set ?ds. valid_draw (shape1 ?L) 2 d" by simp
  note inst = anneal_ridge_in_bounds [OF h1 h2, of 100 0]
  have run: "anneal_run ?L 0 100 (take 3 ?ds) 2 0 =
      Inr \<lparr>st_ys = [1, 1, 1], st_T_k = 1 / ln 4, st_Nrej = 0, st_F_c = Some (- 1),
           st_printed = [1, 1 / ln 2, 1 / ln 3]\<rparr>"
    using anneal_run_example by simp
  have "\<forall>y \<in> set [1, 1, 1 :: int]. 0 \<le> y \<and> y < int (shape0 ?L)"
    using inst [THEN conjunct1, rule_format, of 3, OF _ run] by simp
  then have r: "list_all (\<lambda>y. 0 \<le> y \<and> y < int (shape0 ?L)) [1, 1, 1]"
    by (simp add: list_all_iff)
  have p: "propose (int (shape0 ?L)) 2 0 1 = Inr 1"
    by (simp add: propose_def sh)
  show ?thesis
    unfolding anneal_run_example using h1(1) v r p by simp
qed

section \<open>Properties of the annealing: the acceptance test\<close>

lemma boltzmann_half: "boltzmann 1 (1 / ln 2) = 1 / 2"
  by (simp add: boltzmann_def exp_minus)

lemma anneal_step_reject_example:
  "anneal_step [[2, 2], [0, 0], [0, 0], [0, 0]] 2 1 0 1
     \<lparr>st_ys = [0, 0], st_T_k = 1 / ln 2, st_Nrej = 0, st_F_c = Some (- 2), st_printed = [1]\<rparr>
     \<lparr>d_pos = 0, d_eps = 1, d_u = 3 / 4\<rparr> =
   Inr \<lparr>st_ys = [0, 0], st_T_k = 1 / ln 3, st_Nrej = 1, st_F_c = Some (- 1),
        st_printed = [1, 1 / ln 2]\<rparr>"
  by (simp add: np_eval boltzmann_half)

lemma anneal_step_accept_example:
  "anneal_step [[2, 2], [0, 0], [0, 0], [0, 0]] 2 1 0 1
     \<lparr>st_ys = [0, 0], st_T_k = 1 / ln 2, st_Nrej = 0, st_F_c = Some (- 2), st_printed = [1]\<rparr>
     \<lparr>d_pos = 0, d_eps = 1, d_u = 1 / 4\<rparr> =
   Inr \<lparr>st_ys = [1, 0], st_T_k = 1 / ln 3, st_Nrej = 0, st_F_c = Some (- 1),
        st_printed = [1, 1 / ln 2]\<rparr>"
  by (simp add: np_eval boltzmann_half)

lemma cost_examples:
  "cost_func_anneal [0, 0] (arange (shape1 [[2, 2], [0, 0], [0, 0], [0, 0 :: real]]))
     [[2, 2], [0, 0], [0, 0], [0, 0]] 0 0 = Inr (- 2)"
  "cost_func_anneal [1, 0] (arange (shape1 [[2, 2], [0, 0], [0, 0], [0, 0 :: real]]))
     [[2, 2], [0, 0], [0, 0], [0, 0]] 0 0 = Inr (- 1)"
  by (simp_all add: np_eval)

lemma boltzmann_unit: "0 < boltzmann dF T \<and> boltzmann dF T < 1" if "0 < dF" "0 < T"
  using that by (simp add: boltzmann_def)

text \<open>
  Claim C5.  In an iteration with current cost \<open>F\<close> and candidate cost \<open>F_c\<close>: a candidate
  with \<open>F_c \<le> F\<close> is kept; a candidate with \<open>F_c > F\<close> is kept exactly when the uniform
  sample \<open>u\<close> is at most \<open>exp (- (F_c - F) / T_k)\<close>, a number strictly between \<open>0\<close> and
  \<open>1\<close> for a positive temperature, so that it is the probability of keeping the
  candidate for \<open>u\<close> uniform on \<open>[0, 1)\<close>; otherwise the modified entry is set back and the
  ridge is the one the iteration started with.
\<close>

theorem anneal_step_metropolis:
  assumes "anneal_step L mx T c k s d = Inr s'" and "d_pos d < length (st_ys s)"
  shows "\<exists>F eps Fc.
     cost_func_anneal (st_ys s) (arange (shape1 L)) L 0 c = Inr F \<and>
     propose (int (shape0 L)) mx (st_ys s ! d_pos d) (d_eps d) = Inr eps \<and>
     cost_func_anneal ((st_ys s)[d_pos d := st_ys s ! d_pos d + eps]) (arange (shape1 L)) L 0 c
       = Inr Fc \<and>
     st_F_c s' = Some Fc \<and>
     (Fc \<le> F \<longrightarrow>
        st_ys s' = (st_ys s)[d_pos d := st_ys s ! d_pos d + eps] \<and> st_Nrej s' = 0) \<and>
     (F < Fc \<and> d_u d \<le> boltzmann (Fc - F) (st_T_k s) \<longrightarrow>
        st_ys s' = (st_ys s)[d_pos d := st_ys s ! d_pos d + eps] \<and> st_Nrej s' = 0) \<and>
     (F < Fc \<and> boltzmann (Fc - F) (st_T_k s) < d_u d \<longrightarrow>
        st_ys s' = st_ys s \<and> st_Nrej s' = st_Nrej s + 1) \<and>
     (st_T_k s \<noteq> 0 \<longrightarrow> boltzmann (Fc - F) (st_T_k s) = exp (- (Fc - F) / st_T_k s)) \<and>
     (F < Fc \<and> 0 < st_T_k s \<longrightarrow>
        0 < boltzmann (Fc - F) (st_T_k s) \<and> boltzmann (Fc - F) (st_T_k s) < 1)"
proof -
  let ?ys = "st_ys s" and ?p = "d_pos d"
  from assms(1) obtain F eps Fc where
    F: "cost_func_anneal ?ys (arange (shape1 L)) L 0 c = Inr F" and
    e: "propose (int (shape0 L)) mx (?ys ! ?p) (d_eps d) = Inr eps" and
    Fc: "cost_func_anneal (?ys[?p := ?ys ! ?p + eps]) (arange (shape1 L)) L 0 c = Inr Fc"
    by (auto simp: anneal_step_def Let_def split: sum.splits)
  have s': "s' = \<lparr>st_ys = (if metropolis F Fc (st_T_k s) (d_u d) then ?ys[?p := ?ys ! ?p + eps]
                          else ?ys),
                  st_T_k = T / ln (2 + real k),
                  st_Nrej = (if metropolis F Fc (st_T_k s) (d_u d) then 0 else st_Nrej s + 1),
                  st_F_c = Some Fc,
                  st_printed = st_printed s @ [st_T_k s]\<rparr>"
  proof -
    have "s' = \<lparr>st_ys = (if metropolis F Fc (st_T_k s) (d_u d) then ?ys[?p := ?ys ! ?p + eps]
                          else (?ys[?p := ?ys ! ?p + eps])
                                 [?p := ?ys[?p := ?ys ! ?p + eps] ! ?p - eps]),
                  st_T_k = T / ln (2 + real k),
                  st_Nrej = (if metropolis F Fc (st_T_k s) (d_u d) then 0 else st_Nrej s + 1),
                  st_F_c = Some Fc,
                  st_printed = st_printed s @ [st_T_k s]\<rparr>"
      using assms(1) F e Fc
      by (auto simp: anneal_step_def Let_def simp del: list_update_overwrite)
    then show ?thesis
      unfolding revert_update [OF assms(2)] .
  qed
  have b1: "0 < boltzmann (Fc - F) (st_T_k s) \<and> boltzmann (Fc - F) (st_T_k s) < 1"
    if "F < Fc" "0 < st_T_k s"
    using that boltzmann_unit [of "Fc - F" "st_T_k s"] by simp
  have b2: "st_T_k s \<noteq> 0 \<longrightarrow> boltzmann (Fc - F) (st_T_k s) = exp (- (Fc - F) / st_T_k s)"
    by (simp add: boltzmann_def)
  have acc: "metropolis F Fc (st_T_k s) (d_u d) \<longleftrightarrow>
      Fc \<le> F \<or> d_u d \<le> boltzmann (Fc - F) (st_T_k s)"
    by (auto simp: metropolis_def)
  show ?thesis
    apply (rule exI [of _ F], rule exI [of _ eps], rule exI [of _ Fc])
    using F e Fc b1 b2 acc by (auto simp: s')
qed

theorem anneal_step_metropolis_witness:
  "anneal_step [[2, 2], [0, 0], [0, 0], [0, 0]] 2 1 0 1
     \<lparr>st_ys = [0, 0], st_T_k = 1 / ln 2, st_Nrej = 0, st_F_c = Some (- 2), st_printed = [1]\<rparr>
     \<lparr>d_pos = 0, d_eps = 1, d_u = 3 / 4\<rparr> =
   Inr \<lparr>st_ys = [0, 0], st_T_k = 1 / ln 3, st_Nrej = 1, st_F_c = Some (- 1),
        st_printed = [1, 1 / ln 2]\<rparr> \<and>
   anneal_step [[2, 2], [0, 0], [0, 0], [0, 0]] 2 1 0 1
     \<lparr>st_ys = [0, 0], st_T_k = 1 / ln 2, st_Nrej = 0, st_F_c = Some (- 2), st_printed = [1]\<rparr>
     \<lparr>d_pos = 0, d_eps = 1, d_u = 1 / 4\<rparr> =
   Inr \<lparr>st_ys = [1, 0], st_T_k = 1 / ln 3, st_Nrej = 0, st_F_c = Some (- 1),
        st_printed = [1, 1 / ln 2]\<rparr> \<and>
   cost_func_anneal [0, 0] (arange (shape1 [[2, 2], [0, 0], [0, 0], [0, 0 :: real]]))
     [[2, 2], [0, 0], [0, 0], [0, 0]] 0 0 = Inr (- 2) \<and>
   cost_func_anneal [1, 0] (arange (shape1 [[2, 2], [0, 0], [0, 0], [0, 0 :: real]]))
     [[2, 2], [0, 0], [0, 0], [0, 0]] 0 0 = Inr (- 1) \<and>
   boltzmann (- 1 - (- 2)) (1 / ln 2) = 1 / 2 \<and>
   boltzmann (- 1 - (- 2)) (1 / ln 2) = exp (- (- 1 - (- 2)) / (1 / ln 2)) \<and>
   (1 / 4 :: real) \<le> 1 / 2 \<and> (1 / 2 :: real) < 3 / 4"
proof -
  let ?L = "[[2, 2], [0, 0], [0, 0], [0, 0 :: real]]"
  let ?s = "\<lparr>st_ys = [0, 0], st_T_k = 1 / ln 2, st_Nrej = 0, st_F_c = Some (- 2),
             st_printed = [1]\<rparr>"
  let ?d = "\<lparr>d_pos = 0, d_eps = 1, d_u = 3 / 4\<rparr>"
  have pos: "d_pos ?d < length (st_ys ?s)" by simp
  from anneal_step_metropolis [OF anneal_step_reject_example pos]
  obtain F eps Fc where
    F: "cost_func_anneal (st_ys ?s) (arange (shape1 ?L)) ?L 0 0 = Inr F" and
    Fc: "cost_func_anneal ((st_ys ?s)[d_pos ?d := st_ys ?s ! d_pos ?d + eps])
           (arange (shape1 ?L)) ?L 0 0 = Inr Fc" and
    e: "propose (int (shape0 ?L)) 2 (st_ys ?s ! d_pos ?d) (d_eps ?d) = Inr eps" and
    b: "st_T_k ?s \<noteq> 0 \<longrightarrow> boltzmann (Fc - F) (st_T_k ?s) = exp (- (Fc - F) / st_T_k ?s)"
    by blast
  have "eps = 1" using e by (simp add: propose_def shape0_def)
  then have "F = - 2" "Fc = - 1" using F Fc cost_examples by simp_all
  then have "boltzmann (- 1 - (- 2)) (1 / ln 2) = exp (- (- 1 - (- 2)) / (1 / ln 2))"
    using b by simp
  moreover have "boltzmann (- 1 - (- 2)) (1 / ln 2) = 1 / 2"
    using boltzmann_half by simp
  ultimately show ?thesis
    unfolding anneal_step_reject_example anneal_step_accept_example cost_examples
    by simp
qed

section \<open>Properties of the annealing: the temperature schedule\<close>

lemma exp_minus_one_bound: "exp (- 1 :: real) \<le> 2 / 5"
proof -
  have "1 + 1 + 1\<^sup>2 / 2 \<le> exp (1 :: real)"
    by (rule exp_lower_Taylor_quadratic) simp
  then have "5 / 2 \<le> exp (1 :: real)" by simp
  then have "inverse (exp (1 :: real)) \<le> inverse (5 / 2)"
    by (rule le_imp_inverse_le) simp
  then show ?thesis by (simp add: exp_minus)
qed

lemma boltzmann_initial: "boltzmann 1 1 < 9 / 20"
  using exp_minus_one_bound by (simp add: boltzmann_def)

lemma heating_step0:
  "anneal_step [[2, 2], [0, 0], [0, 0], [0, 0]] 2 1 0 0
     \<lparr>st_ys = [0, 0], st_T_k = 1, st_Nrej = 0, st_F_c = None, st_printed = []\<rparr>
     \<lparr>d_pos = 0, d_eps = 1, d_u = 9 / 20\<rparr> =
   Inr \<lparr>st_ys = [0, 0], st_T_k = 1 / ln 2, st_Nrej = 1, st_F_c = Some (- 1),
        st_printed = [1]\<rparr>"
  using boltzmann_initial by (simp add: np_eval)

lemma heating_step1:
  "anneal_step [[2, 2], [0, 0], [0, 0], [0, 0]] 2 1 0 1
     \<lparr>st_ys = [0, 0], st_T_k = 1 / ln 2, st_Nrej = 1, st_F_c = Some (- 1), st_printed = [1]\<rparr>
     \<lparr>d_pos = 0, d_eps = 1, d_u = 9 / 20\<rparr> =
   Inr \<lparr>st_ys = [1, 0], st_T_k = 1 / ln 3, st_Nrej = 0, st_F_c = Some (- 1),
        st_printed = [1, 1 / ln 2]\<rparr>"
  by (simp add: np_eval boltzmann_half)

lemma heating_run:
  "anneal_run [[2, 2], [0, 0], [0, 0], [0, 0]] 0 100
     [\<lparr>d_pos = 0, d_eps = 1, d_u = 9 / 20\<rparr>, \<lparr>d_pos = 0, d_eps = 1, d_u = 9 / 20\<rparr>] 2 0 =
   Inr \<lparr>st_ys = [1, 0], st_T_k = 1 / ln 3, st_Nrej = 0, st_F_c = Some (- 1),
        st_printed = [1, 1 / ln 2]\<rparr>"
  by (simp add: anneal_run_def shape1_def heating_step0 heating_step1 [unfolded One_nat_def])

text \<open>
  Claim C2: the temperatures of successive acceptance tests are \<open>T_ini / ln (2 + k)\<close> after
  the pre-scaling, they decrease from one iteration to the next and are never zero.
  The code does not do this.  On the run below, with \<open>T_ini = 100\<close> and twice the same
  draw, iteration \<open>0\<close> tests at the temperature \<open>1\<close>, not at \<open>1 / ln 2\<close>, and iteration \<open>1\<close>
  tests at \<open>1 / ln 2\<close>, which is higher: the step from cost \<open>-2\<close> to cost \<open>-1\<close> that the first
  test rejects for the sample \<open>u = 9 / 20\<close> is accepted by the second test for the same
  sample.
\<close>

theorem anneal_temperature_rises:
  "anneal_run [[2, 2], [0, 0], [0, 0], [0, 0]] 0 100 [\<lparr>d_pos = 0, d_eps = 1, d_u = 9 / 20\<rparr>] 2 0 =
     Inr \<lparr>st_ys = [0, 0], st_T_k = 1 / ln 2, st_Nrej = 1, st_F_c = Some (- 1),
          st_printed = [1]\<rparr> \<and>
   anneal_run [[2, 2], [0, 0], [0, 0], [0, 0]] 0 100
     [\<lparr>d_pos = 0, d_eps = 1, d_u = 9 / 20\<rparr>, \<lparr>d_pos = 0, d_eps = 1, d_u = 9 / 20\<rparr>] 2 0 =
     Inr \<lparr>st_ys = [1, 0], st_T_k = 1 / ln 3, st_Nrej = 0, st_F_c = Some (- 1),
          st_printed = [1, 1 / ln 2]\<rparr> \<and>
   find_ridge_anneal [[2, 2], [0, 0], [0, 0], [0, 0]] 0 100
     [\<lparr>d_pos = 0, d_eps = 1, d_u = 9 / 20\<rparr>, \<lparr>d_pos = 0, d_eps = 1, d_u = 9 / 20\<rparr>] 2 0 =
     Inr ([1, 0], - 1) \<and>
   metropolis (- 2) (- 1) 1 (9 / 20) = False \<and>
   metropolis (- 2) (- 1) (1 / ln 2) (9 / 20) = True \<and>
   (1 :: real) \<noteq> 100 / 100 / ln (2 + 0) \<and>
   (1 :: real) < 1 / ln 2"
proof -
  have "ln 2 < (1 :: real)" by (rule ln_2_less_1)
  moreover have "0 < ln (2 :: real)" by simp
  ultimately have gt: "(1 :: real) < 1 / ln 2" by simp
  have one: "anneal_run [[2, 2], [0, 0], [0, 0], [0, 0]] 0 100
       [\<lparr>d_pos = 0, d_eps = 1, d_u = 9 / 20\<rparr>] 2 0 =
     Inr \<lparr>st_ys = [0, 0], st_T_k = 1 / ln 2, st_Nrej = 1, st_F_c = Some (- 1),
          st_printed = [1]\<rparr>"
    by (simp add: anneal_run_def shape1_def heating_step0)
  have m0: "metropolis (- 2) (- 1) 1 (9 / 20) = False"
    using boltzmann_initial by (simp add: metropolis_def)
  have m1: "metropolis (- 2) (- 1) (1 / ln 2) (9 / 20) = True"
    by (simp add: metropolis_def boltzmann_half)
  have fr: "find_ridge_anneal [[2, 2], [0, 0], [0, 0], [0, 0]] 0 100
     [\<lparr>d_pos = 0, d_eps = 1, d_u = 9 / 20\<rparr>, \<lparr>d_pos = 0, d_eps = 1, d_u = 9 / 20\<rparr>] 2 0 =
     Inr ([1, 0], - 1)"
    unfolding find_ridge_anneal_def heating_run by simp
  show ?thesis
    unfolding one heating_run fr m0 m1 using gt by simp
qed

section \<open>Properties of the ridge evaluation\<close>

lemma collect_map_Inr:
  "(\<forall>x \<in> set xs. f x = Inr (g x)) \<Longrightarrow> collect (map f xs) = Inr (map g xs)"
  by (induction xs) simp_all

lemma np_index_nonneg: "0 \<le> i \<Longrightarrow> i < int n \<Longrightarrow> np_index n i = Inr (nat i)"
  by (simp add: np_index_def)

lemma take_idx_in_range:
  assumes "\<forall>y \<in> set ys. 0 \<le> y \<and> y < int (length xs)"
  shows "take_idx xs ys = Inr (map (\<lambda>y. xs ! nat y) ys)"
  unfolding take_idx_def
  by (rule collect_map_Inr) (use assms in \<open>simp add: getitem_def np_index_nonneg\<close>)

lemma map2_arange:
  "length ys = n \<Longrightarrow> map2 f ys (arange n) = map (\<lambda>i. f (ys ! i) (int i)) [0..<n]"
  by (auto simp: arange_def list_eq_iff_nth_eq)

lemma take_idx2_in_range:
  assumes "length ys = shape1 a" and "\<forall>y \<in> set ys. 0 \<le> y \<and> y < int (shape0 a)"
  shows "take_idx2 a ys (arange (shape1 a)) =
     Inr (map (\<lambda>i. a ! nat (ys ! i) ! i) [0..<shape1 a])"
proof -
  have ok: "collect (map (\<lambda>i. getitem2 a (ys ! i) (int i)) [0..<shape1 a]) =
      Inr (map (\<lambda>i. a ! nat (ys ! i) ! i) [0..<shape1 a])"
  proof (rule collect_map_Inr, rule ballI)
    fix i assume "i \<in> set [0..<shape1 a]"
    then have i: "i < shape1 a" by simp
    then have "ys ! i \<in> set ys" using assms(1) by simp
    then have "0 \<le> ys ! i" "ys ! i < int (shape0 a)" using assms(2) by auto
    then show "getitem2 a (ys ! i) (int i) = Inr (a ! nat (ys ! i) ! i)"
      using i by (simp add: getitem2_def np_index_nonneg)
  qed
  have len: "length ys = length (arange (shape1 a))"
    using assms(1) by (simp add: arange_def)
  have "take_idx2 a ys (arange (shape1 a)) = collect (map2 (getitem2 a) ys (arange (shape1 a)))"
    unfolding take_idx2_def using len by (rule_tac if_not_P) simp
  also have "map2 (getitem2 a) ys (arange (shape1 a)) =
      map (\<lambda>i. getitem2 a (ys ! i) (int i)) [0..<shape1 a]"
    by (rule map2_arange [OF assms(1)])
  finally show ?thesis using ok by (rule trans)
qed

lemma masked_by_index:
  assumes "length inds = length xs"
  shows "map snd (filter fst (zip inds xs)) =
     map (\<lambda>i. xs ! i) (filter (\<lambda>i. inds ! i) [0..<length xs])"
proof -
  have "zip inds xs = map (\<lambda>i. (inds ! i, xs ! i)) [0..<length xs]"
    by (rule nth_equalityI) (use assms in simp_all)
  then have "map snd (filter fst (zip inds xs)) =
      map snd (filter fst (map (\<lambda>i. (inds ! i, xs ! i)) [0..<length xs]))"
    by (rule arg_cong)
  also have "\<dots> = map (\<lambda>i. xs ! i) (filter (\<lambda>i. inds ! i) [0..<length xs])"
    by (simp add: filter_map comp_def)
  finally show ?thesis .
qed

lemma np_mask_by_index:
  "length inds = length xs \<Longrightarrow>
     np_mask xs inds = Inr (map (\<lambda>i. xs ! i) (filter (\<lambda>i. inds ! i) [0..<length xs]))"
  by (simp add: np_mask_def masked_by_index)

lemma shape_map: "shape0 (map (map f) a) = shape0 a" "shape1 (map (map f) a) = shape1 a"
  by (simp_all add: shape0_def shape1_def split: list.splits)

lemma rectangular_nth:
  "rectangular a \<Longrightarrow> r < shape0 a \<Longrightarrow> length (a ! r) = shape1 a"
  by (simp add: rectangular_def list_all_length shape0_def)

lemma getitem_nonneg: "i < length xs \<Longrightarrow> getitem xs (int i) = Inr (xs ! i)"
  by (simp add: getitem_def np_index_def)

lemma ridge_readout:
  assumes len: "length ridge_y = shape1 wlet"
    and rect: "rectangular wlet"
    and rng: "\<forall>y \<in> set ridge_y. 0 \<le> y \<and> y < int (shape0 wlet)"
  shows "take_idx2 wlet ridge_y (arange (shape1 wlet)) =
           Inr (map (\<lambda>i. wlet ! nat (ridge_y ! i) ! i) [0..<shape1 wlet])"
    and "take_idx2 (map (map f) wlet) ridge_y (arange (shape1 (map (map f) wlet))) =
           Inr (map (\<lambda>i. f (wlet ! nat (ridge_y ! i) ! i)) [0..<shape1 wlet])"
proof -
  show "take_idx2 wlet ridge_y (arange (shape1 wlet)) =
           Inr (map (\<lambda>i. wlet ! nat (ridge_y ! i) ! i) [0..<shape1 wlet])"
    by (rule take_idx2_in_range [OF len rng])
  let ?m = "map (map f) wlet"
  have len': "length ridge_y = shape1 ?m" using len by (simp add: shape_map)
  have rng': "\<forall>y \<in> set ridge_y. 0 \<le> y \<and> y < int (shape0 ?m)"
    using rng by (simp add: shape_map)
  have cell: "?m ! nat (ridge_y ! i) ! i = f (wlet ! nat (ridge_y ! i) ! i)"
    if "i < shape1 wlet" for i
  proof -
    have "ridge_y ! i \<in> set ridge_y" using that len by simp
    then have r: "nat (ridge_y ! i) < shape0 wlet" using rng by auto
    then have "length (wlet ! nat (ridge_y ! i)) = shape1 wlet"
      by (rule rectangular_nth [OF rect])
    then show ?thesis using r that by (simp add: shape0_def)
  qed
  have "take_idx2 ?m ridge_y (arange (shape1 ?m)) =
      Inr (map (\<lambda>i. ?m ! nat (ridge_y ! i) ! i) [0..<shape1 ?m])"
    by (rule take_idx2_in_range [OF len' rng'])
  also have "map (\<lambda>i. ?m ! nat (ridge_y ! i) ! i) [0..<shape1 ?m] =
      map (\<lambda>i. f (wlet ! nat (ridge_y ! i) ! i)) [0..<shape1 wlet]"
    using cell by (simp add: shape_map)
  finally show "take_idx2 ?m ridge_y (arange (shape1 ?m)) =
      Inr (map (\<lambda>i. f (wlet ! nat (ridge_y ! i) ! i)) [0..<shape1 wlet])" .
qed

lemma np_mask_threshold:
  assumes "length xs = n"
  shows "np_mask xs (map (\<lambda>p. th < p) (map pw [0..<n])) =
     Inr (map (\<lambda>i. xs ! i) (filter (\<lambda>i. th < pw i) [0..<n]))"
proof -
  let ?inds = "map (\<lambda>p. th < p) (map pw [0..<n])"
  have "np_mask xs ?inds = Inr (map (\<lambda>i. xs ! i) (filter (\<lambda>i. ?inds ! i) [0..<length xs]))"
    by (rule np_mask_by_index) (simp add: assms)
  also have "filter (\<lambda>i. ?inds ! i) [0..<length xs] = filter (\<lambda>i. th < pw i) [0..<n]"
    unfolding assms by (rule filter_cong) simp_all
  finally show ?thesis .
qed

lemma take_idx_length: "take_idx xs ys = Inr zs \<Longrightarrow> length zs = length ys"
proof -
  have "collect rs = Inr zs \<Longrightarrow> length zs = length rs" for rs :: "(py_error + 'a) list"
    by (induction rs arbitrary: zs) (auto split: sum.splits)
  then show "take_idx xs ys = Inr zs \<Longrightarrow> length zs = length ys"
    unfolding take_idx_def by fastforce
qed

lemma py_bind_Inr: "py_bind (Inr v) f = f v"
  by (simp add: py_bind_def)

lemma py_bind_Inl: "py_bind (Inl e) f = Inl e"
  by (simp add: py_bind_def)

lemma eval_ridge_unfold:
  fixes wlet :: "complex matrix" and signal periods tvec :: "real list"
    and ridge_y :: "int list" and th :: real
  assumes tv: "2 \<le> length tvec" "length tvec = shape1 wlet"
    and len: "length ridge_y = shape1 wlet"
    and rect: "rectangular wlet"
    and rng: "\<forall>y \<in> set ridge_y. 0 \<le> y \<and> y < int (shape0 wlet)"
    and per: "length periods = shape0 wlet"
  defines "pw \<equiv> \<lambda>i. (cmod (wlet ! nat (ridge_y ! i) ! i)) ^ 2 / np_var signal"
    and "ridge_per \<equiv> map (\<lambda>y. periods ! nat y) ridge_y"
  defines "keep \<equiv> filter (\<lambda>i. th < pw i) [0..<length tvec]"
  shows "eval_ridge sg ridge_y wlet signal periods tvec th sw =
     py_bind
       (case sw of
          None \<Rightarrow> Inr (map (\<lambda>i. ridge_per ! i) keep)
        | Some w \<Rightarrow>
            py_bind (sg ridge_per w 3)
              (\<lambda>smoothed. np_mask smoothed (map (\<lambda>p. th < p) (map pw [0..<length tvec]))))
       (\<lambda>sp. Inr \<lparr>rd_index = [0..<length keep],
                   rd_time = map (\<lambda>i. tvec ! i) keep,
                   rd_periods = sp,
                   rd_phase = map (\<lambda>i. py_fmod (Arg (wlet ! nat (ridge_y ! i) ! i)) (2 * pi)) keep,
                   rd_amplitude =
                     power_to_amplitude (map (\<lambda>i. ridge_per ! i) keep) (map pw keep)
                       (sqrt (np_var signal)) (tvec ! 1 - tvec ! 0),
                   rd_power = map pw keep,
                   rd_frequencies = map (\<lambda>p. 1 / p) sp\<rparr>)"
proof -
  let ?n = "length tvec"
  let ?f = "\<lambda>z. (cmod z) ^ 2 / np_var signal"
  let ?inds = "map (\<lambda>p. th < p) (map pw [0..<?n])"
  have g1: "getitem tvec 1 = Inr (tvec ! 1)" and g0: "getitem tvec 0 = Inr (tvec ! 0)"
    using tv(1) by (auto simp: getitem_def np_index_def)
  have rng': "\<forall>y \<in> set ridge_y. 0 \<le> y \<and> y < int (length periods)"
    using rng per by simp
  have rp: "take_idx periods ridge_y = Inr ridge_per"
    unfolding ridge_per_def by (rule take_idx_in_range [OF rng'])
  have rz: "take_idx2 wlet ridge_y (arange (shape1 wlet)) =
      Inr (map (\<lambda>i. wlet ! nat (ridge_y ! i) ! i) [0..<?n])"
    using ridge_readout(1) [OF len rect rng] tv(2) by simp
  have rpw: "take_idx2 (map (map ?f) wlet) ridge_y (arange (shape1 wlet)) = Inr (map pw [0..<?n])"
    using ridge_readout(2) [OF len rect rng, of ?f] tv(2) by (simp add: shape_map pw_def)
  have lrp: "length ridge_per = ?n" using len tv(2) by (simp add: ridge_per_def)
  have m1: "np_mask ridge_per ?inds = Inr (map (\<lambda>i. ridge_per ! i) keep)"
    unfolding keep_def by (rule np_mask_threshold [OF lrp])
  have m2: "np_mask tvec ?inds = Inr (map (\<lambda>i. tvec ! i) keep)"
    unfolding keep_def by (rule np_mask_threshold) simp
  have m3: "np_mask (map Arg (map (\<lambda>i. wlet ! nat (ridge_y ! i) ! i) [0..<?n])) ?inds =
      Inr (map (\<lambda>i. Arg (wlet ! nat (ridge_y ! i) ! i)) keep)"
  proof -
    have "np_mask (map Arg (map (\<lambda>i. wlet ! nat (ridge_y ! i) ! i) [0..<?n])) ?inds =
        Inr (map (\<lambda>i. map Arg (map (\<lambda>i. wlet ! nat (ridge_y ! i) ! i) [0..<?n]) ! i) keep)"
      unfolding keep_def by (rule np_mask_threshold) simp
    also have "map (\<lambda>i. map Arg (map (\<lambda>i. wlet ! nat (ridge_y ! i) ! i) [0..<?n]) ! i) keep =
        map (\<lambda>i. Arg (wlet ! nat (ridge_y ! i) ! i)) keep"
      by (rule map_cong) (simp_all add: keep_def)
    finally show ?thesis .
  qed
  have m4: "np_mask (map pw [0..<?n]) ?inds = Inr (map pw keep)"
  proof -
    have "np_mask (map pw [0..<?n]) ?inds = Inr (map (\<lambda>i. map pw [0..<?n] ! i) keep)"
      unfolding keep_def by (rule np_mask_threshold) simp
    also have "map (\<lambda>i. map pw [0..<?n] ! i) keep = map pw keep"
      by (rule map_cong) (simp_all add: keep_def)
    finally show ?thesis .
  qed
  have ne: "map pw [0..<?n] \<noteq> []" using tv(1) by auto
  show ?thesis
    unfolding eval_ridge_def Let_def shape_map g1 g0 rp rz rpw m1 m2 m3 m4 py_bind_Inr
    using ne by (simp add: comp_def)
qed

text \<open>
  Claim C4.  On a well-formed call without smoothing (a rectangular transform with one
  column per time point, at least two time points, a ridge of row indices, a signal
  that is not constant) \<open>eval_ridge\<close> raises no exception, and the table it returns
  holds, in ascending order, exactly the time points whose ridge power
  \<open>|wlet[ridge_y[i], i]|\<^sup>2 / var(signal)\<close> is strictly greater than \<open>power_thresh\<close>: a point whose
  power equals the threshold is dropped.  All columns have the length of the time
  column, and when no ridge power exceeds the threshold the table has no rows.
\<close>

theorem eval_ridge_threshold:
  fixes wlet :: "complex matrix" and signal periods tvec :: "real list"
    and ridge_y :: "int list" and th :: real
  assumes "2 \<le> length tvec" "length tvec = shape1 wlet"
    and "length ridge_y = shape1 wlet"
    and "rectangular wlet"
    and "\<forall>y \<in> set ridge_y. 0 \<le> y \<and> y < int (shape0 wlet)"
    and "length periods = shape0 wlet"
    and "np_var signal \<noteq> 0"
  shows "\<exists>rd. eval_ridge sg ridge_y wlet signal periods tvec th None = Inr rd \<and>
     rd_time rd =
       map (\<lambda>i. tvec ! i)
         (filter (\<lambda>i. th < (cmod (wlet ! nat (ridge_y ! i) ! i)) ^ 2 / np_var signal)
            [0..<length tvec]) \<and>
     rd_power rd =
       map (\<lambda>i. (cmod (wlet ! nat (ridge_y ! i) ! i)) ^ 2 / np_var signal)
         (filter (\<lambda>i. th < (cmod (wlet ! nat (ridge_y ! i) ! i)) ^ 2 / np_var signal)
            [0..<length tvec]) \<and>
     rd_periods rd =
       map (\<lambda>i. periods ! nat (ridge_y ! i))
         (filter (\<lambda>i. th < (cmod (wlet ! nat (ridge_y ! i) ! i)) ^ 2 / np_var signal)
            [0..<length tvec]) \<and>
     length (rd_periods rd) = length (rd_time rd) \<and>
     length (rd_phase rd) = length (rd_time rd) \<and>
     length (rd_amplitude rd) = length (rd_time rd) \<and>
     length (rd_power rd) = length (rd_time rd) \<and>
     length (rd_frequencies rd) = length (rd_time rd) \<and>
     length (rd_index rd) = length (rd_time rd) \<and>
     ((\<forall>i < length tvec. (cmod (wlet ! nat (ridge_y ! i) ! i)) ^ 2 / np_var signal \<le> th) \<longrightarrow>
        rd_time rd = [] \<and> rd_periods rd = [] \<and> rd_phase rd = [] \<and> rd_amplitude rd = [] \<and>
        rd_power rd = [] \<and> rd_frequencies rd = [] \<and> rd_index rd = [])"
proof -
  let ?pw = "\<lambda>i. (cmod (wlet ! nat (ridge_y ! i) ! i)) ^ 2 / np_var signal"
  let ?keep = "filter (\<lambda>i. th < ?pw i) [0..<length tvec]"
  let ?per = "map (\<lambda>y. periods ! nat y) ridge_y"
  let ?rd = "\<lparr>rd_index = [0..<length ?keep],
              rd_time = map (\<lambda>i. tvec ! i) ?keep,
              rd_periods = map (\<lambda>i. ?per ! i) ?keep,
              rd_phase = map (\<lambda>i. py_fmod (Arg (wlet ! nat (ridge_y ! i) ! i)) (2 * pi)) ?keep,
              rd_amplitude =
                power_to_amplitude (map (\<lambda>i. ?per ! i) ?keep) (map ?pw ?keep)
                  (sqrt (np_var signal)) (tvec ! 1 - tvec ! 0),
              rd_power = map ?pw ?keep,
              rd_frequencies = map (\<lambda>p. 1 / p) (map (\<lambda>i. ?per ! i) ?keep)\<rparr>"
  have run: "eval_ridge sg ridge_y wlet signal periods tvec th None = Inr ?rd"
    unfolding eval_ridge_unfold [OF assms(1-6)] by (simp add: py_bind_Inr)
  have per: "map (\<lambda>i. ?per ! i) ?keep = map (\<lambda>i. periods ! nat (ridge_y ! i)) ?keep"
    by (rule map_cong) (use assms(2,3) in simp_all)
  have c1: "rd_time ?rd = map (\<lambda>i. tvec ! i) ?keep" by simp
  have c2: "rd_power ?rd = map ?pw ?keep" by simp
  have c3: "rd_periods ?rd = map (\<lambda>i. periods ! nat (ridge_y ! i)) ?keep"
    using per by simp
  have l1: "length (rd_periods ?rd) = length (rd_time ?rd)" by simp
  have l2: "length (rd_phase ?rd) = length (rd_time ?rd)" by simp
  have l3: "length (rd_amplitude ?rd) = length (rd_time ?rd)"
    by (simp add: power_to_amplitude_def scales_from_periods_def Let_def)
  have l4: "length (rd_power ?rd) = length (rd_time ?rd)" by simp
  have l5: "length (rd_frequencies ?rd) = length (rd_time ?rd)" by simp
  have l6: "length (rd_index ?rd) = length (rd_time ?rd)" by simp
  have e: "(\<forall>i < length tvec. ?pw i \<le> th) \<longrightarrow>
      rd_time ?rd = [] \<and> rd_periods ?rd = [] \<and> rd_phase ?rd = [] \<and>
      rd_amplitude ?rd = [] \<and> rd_power ?rd = [] \<and> rd_frequencies ?rd = [] \<and> rd_index ?rd = []"
  proof
    assume "\<forall>i < length tvec. ?pw i \<le> th"
    then have "?keep = []" by (auto simp: filter_empty_conv)
    then show "rd_time ?rd = [] \<and> rd_periods ?rd = [] \<and> rd_phase ?rd = [] \<and>
      rd_amplitude ?rd = [] \<and> rd_power ?rd = [] \<and> rd_frequencies ?rd = [] \<and> rd_index ?rd = []"
      by (simp add: power_to_amplitude_def scales_from_periods_def Let_def)
  qed
  from run c1 c2 c3 l1 l2 l3 l4 l5 l6 e show ?thesis
    by (intro exI [of _ ?rd] conjI)
qed

lemma upt2: "[0..<2] = [0, 1]"
  by (simp add: upt_conv_Cons)

lemma np_var_pm1: "np_var [1, - 1] = 1"
  by (simp add: np_var_def np_mean_def)

theorem eval_ridge_threshold_witness:
  "2 \<le> length [0, 1 :: real] \<and>
   length [0, 1 :: real] = shape1 [[1, 2], [0, 3 :: complex]] \<and>
   length [0, 1 :: int] = shape1 [[1, 2], [0, 3 :: complex]] \<and>
   rectangular [[1, 2], [0, 3 :: complex]] \<and>
   list_all (\<lambda>y. 0 \<le> y \<and> y < int (shape0 [[1, 2], [0, 3 :: complex]])) [0, 1] \<and>
   length [10, 20 :: real] = shape0 [[1, 2], [0, 3 :: complex]] \<and>
   np_var [1, - 1] \<noteq> 0 \<and>
   (cmod ([[1, 2], [0, 3]] ! nat ([0, 1] ! 0) ! 0))\<^sup>2 / np_var [1, - 1] = 1 \<and>
   (cmod ([[1, 2], [0, 3]] ! nat ([0, 1] ! 1) ! 1))\<^sup>2 / np_var [1, - 1] = 9 \<and>
   map_sum id rd_time
     (eval_ridge (\<lambda>x w p. Inr x) [0, 1] [[1, 2], [0, 3]] [1, - 1] [10, 20] [0, 1] 1 None) = Inr [1] \<and>
   map_sum id rd_periods
     (eval_ridge (\<lambda>x w p. Inr x) [0, 1] [[1, 2], [0, 3]] [1, - 1] [10, 20] [0, 1] 1 None) = Inr [20] \<and>
   map_sum id rd_time
     (eval_ridge (\<lambda>x w p. Inr x) [0, 1] [[1, 2], [0, 3]] [1, - 1] [10, 20] [0, 1] 9 None) = Inr []"
proof -
  let ?w = "[[1, 2], [0, 3 :: complex]]"
  let ?sg = "\<lambda>(x :: real list) (w :: int) (p :: nat). (Inr x :: py_error + real list)"
  have h: "2 \<le> length [0, 1 :: real]" "length [0, 1 :: real] = shape1 ?w"
      "length [0, 1 :: int] = shape1 ?w" "rectangular ?w"
      "\<forall>y \<in> set [0, 1 :: int]. 0 \<le> y \<and> y < int (shape0 ?w)"
      "length [10, 20 :: real] = shape0 ?w" "np_var [1, - 1] \<noteq> 0"
    by (simp_all add: shape0_def shape1_def rectangular_def np_var_pm1)
  have p0: "(cmod (?w ! nat ([0, 1] ! 0) ! 0))\<^sup>2 / np_var [1, - 1] = 1"
    and p1: "(cmod (?w ! nat ([0, 1] ! 1) ! 1))\<^sup>2 / np_var [1, - 1] = 9"
    by (simp_all add: np_var_pm1)
  have pw: "(cmod (?w ! nat ([0, 1] ! i) ! i))\<^sup>2 / np_var [1, - 1] = (if i = 0 then 1 else 9)"
    if "i \<in> set [0, 1 :: nat]" for i
    using that p0 p1 by auto
  have k1: "filter (\<lambda>i. 1 < (cmod (?w ! nat ([0, 1] ! i) ! i))\<^sup>2 / np_var [1, - 1]) [0, 1] = [1]"
    using p0 p1 by simp
  have k9: "filter (\<lambda>i. 9 < (cmod (?w ! nat ([0, 1] ! i) ! i))\<^sup>2 / np_var [1, - 1]) [0, 1] = []"
    using p0 p1 by simp
  have n: "[0..<length [0, 1 :: real]] = [0, 1]" by (simp add: upt2)
  note inst1 = eval_ridge_threshold [OF h, of ?sg 1, unfolded n k1]
  note inst9 = eval_ridge_threshold [OF h, of ?sg 9, unfolded n k9]
  from inst1 obtain rd1 where
    r1: "eval_ridge ?sg [0, 1] ?w [1, - 1] [10, 20] [0, 1] 1 None = Inr rd1" and
    t1: "rd_time rd1 = map (\<lambda>i. [0, 1] ! i) [1]" and
    q1: "rd_periods rd1 = map (\<lambda>i. [10, 20] ! nat ([0, 1] ! i)) [1]"
    by blast
  from inst9 obtain rd9 where
    r9: "eval_ridge ?sg [0, 1] ?w [1, - 1] [10, 20] [0, 1] 9 None = Inr rd9" and
    t9: "rd_time rd9 = map (\<lambda>i. [0, 1] ! i) []"
    by blast
  have la: "list_all (\<lambda>y. 0 \<le> y \<and> y < int (shape0 ?w)) [0, 1]"
    using h(5) by (simp add: list_all_iff)
  show ?thesis
    unfolding r1 r9 using h(1-4,6,7) la p0 p1 t1 q1 t9 by simp
qed

lemma np_mask_length: "np_mask xs inds = Inr zs \<Longrightarrow> length xs = length inds"
  by (simp add: np_mask_def split: if_splits)

lemma upt5: "[0..<5] = [0, 1, 2, 3, 4]"
  by (simp add: upt_conv_Cons)

lemma ridge5_wf:
  "2 \<le> length [0, 1, 2, 3, 4 :: real]"
  "length [0, 1, 2, 3, 4 :: real] = shape1 [[1, 1, 1, 1, 1], [2, 2, 2, 2, 2 :: complex]]"
  "length [0, 1, 0, 1, 0 :: int] = shape1 [[1, 1, 1, 1, 1], [2, 2, 2, 2, 2 :: complex]]"
  "rectangular [[1, 1, 1, 1, 1], [2, 2, 2, 2, 2 :: complex]]"
  "\<forall>y \<in> set [0, 1, 0, 1, 0 :: int].
     0 \<le> y \<and> y < int (shape0 [[1, 1, 1, 1, 1], [2, 2, 2, 2, 2 :: complex]])"
  "length [10, 20 :: real] = shape0 [[1, 1, 1, 1, 1], [2, 2, 2, 2, 2 :: complex]]"
  by (simp_all add: shape0_def shape1_def rectangular_def)

lemma ridge5_keep:
  "filter (\<lambda>i. 2 < (cmod ([[1, 1, 1, 1, 1], [2, 2, 2, 2, 2]] ! nat ([0, 1, 0, 1, 0] ! i) ! i))\<^sup>2
                    / np_var [1, - 1])
     [0..<length [0, 1, 2, 3, 4 :: real]] = [1, 3]"
  by (simp add: upt5 np_var_pm1)

lemma ridge5_mask:
  "map (\<lambda>p. 2 < p)
     (map (\<lambda>i. (cmod ([[1, 1, 1, 1, 1], [2, 2, 2, 2, 2]] ! nat ([0, 1, 0, 1, 0] ! i) ! i))\<^sup>2
                 / np_var [1, - 1])
        [0..<length [0, 1, 2, 3, 4 :: real]]) = [False, True, False, True, False]"
  by (simp add: upt5 np_var_pm1)

lemma ridge5_smoothed:
  "eval_ridge (\<lambda>x w p. Inr (map (\<lambda>v. v + 1) x)) [0, 1, 0, 1, 0]
     [[1, 1, 1, 1, 1], [2, 2, 2, 2, 2]] [1, - 1] [10, 20] [0, 1, 2, 3, 4] 2 (Some 5) =
   Inr \<lparr>rd_index = [0, 1], rd_time = [1, 3], rd_periods = [21, 21],
        rd_phase = [py_fmod (Arg 2) (2 * pi), py_fmod (Arg 2) (2 * pi)],
        rd_amplitude = power_to_amplitude [20, 20] [4, 4] (sqrt (np_var [1, - 1])) 1,
        rd_power = [4, 4], rd_frequencies = [1 / 21, 1 / 21]\<rparr>"
  unfolding eval_ridge_unfold [OF ridge5_wf] ridge5_keep ridge5_mask
  by (simp add: py_bind_Inr np_mask_def np_var_pm1 upt2)

lemma ridge5_plain:
  "eval_ridge sg [0, 1, 0, 1, 0]
     [[1, 1, 1, 1, 1], [2, 2, 2, 2, 2]] [1, - 1] [10, 20] [0, 1, 2, 3, 4] 2 None =
   Inr \<lparr>rd_index = [0, 1], rd_time = [1, 3], rd_periods = [20, 20],
        rd_phase = [py_fmod (Arg 2) (2 * pi), py_fmod (Arg 2) (2 * pi)],
        rd_amplitude = power_to_amplitude [20, 20] [4, 4] (sqrt (np_var [1, - 1])) 1,
        rd_power = [4, 4], rd_frequencies = [1 / 20, 1 / 20]\<rparr>"
  unfolding eval_ridge_unfold [OF ridge5_wf] ridge5_keep ridge5_mask
  by (simp add: py_bind_Inr np_var_pm1 upt2)

text \<open>
  Claim C9.  When \<open>eval_ridge\<close> is called with a smoothing window and returns a table, the
  amplitude column is \<open>power_to_amplitude\<close> of the unsmoothed masked ridge periods, the
  same column the call without smoothing returns, whereas the periods column holds the
  masked entries of the smoothed trace: the two columns of one row come from different
  period values whenever the filter changes the trace.
\<close>

theorem eval_ridge_amplitude_unsmoothed:
  fixes wlet :: "complex matrix" and signal periods tvec :: "real list"
    and ridge_y :: "int list" and th :: real
  assumes "2 \<le> length tvec" "length tvec = shape1 wlet"
    and "length ridge_y = shape1 wlet"
    and "rectangular wlet"
    and "\<forall>y \<in> set ridge_y. 0 \<le> y \<and> y < int (shape0 wlet)"
    and "length periods = shape0 wlet"
    and "eval_ridge sg ridge_y wlet signal periods tvec th (Some w) = Inr rd"
  shows "\<exists>rd0 smoothed.
     eval_ridge sg ridge_y wlet signal periods tvec th None = Inr rd0 \<and>
     sg (map (\<lambda>y. periods ! nat y) ridge_y) w 3 = Inr smoothed \<and>
     rd_amplitude rd =
       power_to_amplitude (rd_periods rd0) (rd_power rd) (sqrt (np_var signal))
         (tvec ! 1 - tvec ! 0) \<and>
     rd_amplitude rd = rd_amplitude rd0 \<and>
     rd_periods rd0 =
       map (\<lambda>i. periods ! nat (ridge_y ! i))
         (filter (\<lambda>i. th < (cmod (wlet ! nat (ridge_y ! i) ! i)) ^ 2 / np_var signal)
            [0..<length tvec]) \<and>
     rd_periods rd =
       map (\<lambda>i. smoothed ! i)
         (filter (\<lambda>i. th < (cmod (wlet ! nat (ridge_y ! i) ! i)) ^ 2 / np_var signal)
            [0..<length tvec]) \<and>
     rd_time rd = rd_time rd0 \<and> rd_power rd = rd_power rd0 \<and> rd_phase rd = rd_phase rd0"
proof -
  let ?pw = "\<lambda>i. (cmod (wlet ! nat (ridge_y ! i) ! i)) ^ 2 / np_var signal"
  let ?keep = "filter (\<lambda>i. th < ?pw i) [0..<length tvec]"
  let ?per = "map (\<lambda>y. periods ! nat y) ridge_y"
  let ?inds = "map (\<lambda>p. th < p) (map ?pw [0..<length tvec])"
  let ?tab = "\<lambda>sp. \<lparr>rd_index = [0..<length ?keep],
              rd_time = map (\<lambda>i. tvec ! i) ?keep,
              rd_periods = sp,
              rd_phase = map (\<lambda>i. py_fmod (Arg (wlet ! nat (ridge_y ! i) ! i)) (2 * pi)) ?keep,
              rd_amplitude =
                power_to_amplitude (map (\<lambda>i. ?per ! i) ?keep) (map ?pw ?keep)
                  (sqrt (np_var signal)) (tvec ! 1 - tvec ! 0),
              rd_power = map ?pw ?keep,
              rd_frequencies = map (\<lambda>p. 1 / p) sp\<rparr>"
  have run0: "eval_ridge sg ridge_y wlet signal periods tvec th None =
      Inr (?tab (map (\<lambda>i. ?per ! i) ?keep))"
    unfolding eval_ridge_unfold [OF assms(1-6)] by (simp add: py_bind_Inr)
  have "py_bind (py_bind (sg ?per w 3) (\<lambda>smoothed. np_mask smoothed ?inds))
          (\<lambda>sp. Inr (?tab sp)) = Inr rd"
    using assms(7) unfolding eval_ridge_unfold [OF assms(1-6)] by simp
  then obtain smoothed sp where
    sm: "sg ?per w 3 = Inr smoothed" and
    mk: "np_mask smoothed ?inds = Inr sp" and
    rd: "rd = ?tab sp"
    by (auto simp: py_bind_def split: sum.splits)
  have "length smoothed = length tvec"
    using np_mask_length [OF mk] by simp
  then have "np_mask smoothed ?inds = Inr (map (\<lambda>i. smoothed ! i) ?keep)"
    by (rule np_mask_threshold)
  then have sp: "sp = map (\<lambda>i. smoothed ! i) ?keep" using mk by simp
  have per: "map (\<lambda>i. ?per ! i) ?keep = map (\<lambda>i. periods ! nat (ridge_y ! i)) ?keep"
    by (rule map_cong) (use assms(2,3) in simp_all)
  let ?rd0 = "?tab (map (\<lambda>i. ?per ! i) ?keep)"
  have a1: "rd_amplitude rd =
       power_to_amplitude (rd_periods ?rd0) (rd_power rd) (sqrt (np_var signal))
         (tvec ! 1 - tvec ! 0)"
    unfolding rd by simp
  have a2: "rd_amplitude rd = rd_amplitude ?rd0" unfolding rd by simp
  have a3: "rd_periods ?rd0 = map (\<lambda>i. periods ! nat (ridge_y ! i)) ?keep"
    using per by simp
  have a4: "rd_periods rd = map (\<lambda>i. smoothed ! i) ?keep"
    unfolding rd sp by simp
  have a5: "rd_time rd = rd_time ?rd0" "rd_power rd = rd_power ?rd0" "rd_phase rd = rd_phase ?rd0"
    unfolding rd by simp_all
  from run0 sm a1 a2 a3 a4 a5 show ?thesis
    by (intro exI [of _ ?rd0] exI [of _ smoothed] conjI)
qed

theorem eval_ridge_amplitude_unsmoothed_witness:
  "2 \<le> length [0, 1, 2, 3, 4 :: real] \<and>
   length [0, 1, 2, 3, 4 :: real] = shape1 [[1, 1, 1, 1, 1], [2, 2, 2, 2, 2 :: complex]] \<and>
   length [0, 1, 0, 1, 0 :: int] = shape1 [[1, 1, 1, 1, 1], [2, 2, 2, 2, 2 :: complex]] \<and>
   rectangular [[1, 1, 1, 1, 1], [2, 2, 2, 2, 2 :: complex]] \<and>
   list_all (\<lambda>y. 0 \<le> y \<and> y < int (shape0 [[1, 1, 1, 1, 1], [2, 2, 2, 2, 2 :: complex]]))
     [0, 1, 0, 1, 0] \<and>
   length [10, 20 :: real] = shape0 [[1, 1, 1, 1, 1], [2, 2, 2, 2, 2 :: complex]] \<and>
   map_sum id rd_periods
     (eval_ridge (\<lambda>x w p. Inr (map (\<lambda>v. v + 1) x)) [0, 1, 0, 1, 0]
        [[1, 1, 1, 1, 1], [2, 2, 2, 2, 2]] [1, - 1] [10, 20] [0, 1, 2, 3, 4] 2 (Some 5)) =
     Inr [21, 21] \<and>
   map_sum id rd_periods
     (eval_ridge (\<lambda>x w p. Inr (map (\<lambda>v. v + 1) x)) [0, 1, 0, 1, 0]
        [[1, 1, 1, 1, 1], [2, 2, 2, 2, 2]] [1, - 1] [10, 20] [0, 1, 2, 3, 4] 2 None) =
     Inr [20, 20] \<and>
   map_sum id rd_amplitude
     (eval_ridge (\<lambda>x w p. Inr (map (\<lambda>v. v + 1) x)) [0, 1, 0, 1, 0]
        [[1, 1, 1, 1, 1], [2, 2, 2, 2, 2]] [1, - 1] [10, 20] [0, 1, 2, 3, 4] 2 (Some 5)) =
     Inr (power_to_amplitude [20, 20] [4, 4] (sqrt (np_var [1, - 1])) ([0, 1, 2, 3, 4] ! 1 - [0, 1, 2, 3, 4] ! 0)) \<and>
   map_sum id rd_amplitude
     (eval_ridge (\<lambda>x w p. Inr (map (\<lambda>v. v + 1) x)) [0, 1, 0, 1, 0]
        [[1, 1, 1, 1, 1], [2, 2, 2, 2, 2]] [1, - 1] [10, 20] [0, 1, 2, 3, 4] 2 (Some 5)) =
   map_sum id rd_amplitude
     (eval_ridge (\<lambda>x w p. Inr (map (\<lambda>v. v + 1) x)) [0, 1, 0, 1, 0]
        [[1, 1, 1, 1, 1], [2, 2, 2, 2, 2]] [1, - 1] [10, 20] [0, 1, 2, 3, 4] 2 None)"
proof -
  let ?sg = "\<lambda>(x :: real list) (w :: int) (p :: nat).
               (Inr (map (\<lambda>v. v + 1) x) :: py_error + real list)"
  let ?rd = "\<lparr>rd_index = [0, 1], rd_time = [1, 3], rd_periods = [21, 21],
        rd_phase = [py_fmod (Arg 2) (2 * pi), py_fmod (Arg 2) (2 * pi)],
        rd_amplitude = power_to_amplitude [20, 20] [4, 4] (sqrt (np_var [1, - 1])) 1,
        rd_power = [4, 4], rd_frequencies = [1 / 21, 1 / 21]\<rparr>"
  from eval_ridge_amplitude_unsmoothed [OF ridge5_wf ridge5_smoothed]
  obtain rd0 smoothed where
    r0: "eval_ridge ?sg [0, 1, 0, 1, 0] [[1, 1, 1, 1, 1], [2, 2, 2, 2, 2]] [1, - 1] [10, 20]
           [0, 1, 2, 3, 4] 2 None = Inr rd0" and
    am: "rd_amplitude ?rd =
           power_to_amplitude (rd_periods rd0) (rd_power ?rd) (sqrt (np_var [1, - 1]))
             ([0, 1, 2, 3, 4] ! 1 - [0, 1, 2, 3, 4] ! 0)" and
    eq: "rd_amplitude ?rd = rd_amplitude rd0"
    by blast
  have p0: "rd_periods rd0 = [20, 20]"
    using r0 unfolding ridge5_plain by auto
  have la: "list_all (\<lambda>y. 0 \<le> y \<and> y < int (shape0 [[1, 1, 1, 1, 1], [2, 2, 2, 2, 2 :: complex]]))
     [0, 1, 0, 1, 0]"
    using ridge5_wf(5) by (simp add: list_all_iff)
  have am': "rd_amplitude ?rd =
      power_to_amplitude [20, 20] [4, 4] (sqrt (np_var [1, - 1]))
        ([0, 1, 2, 3, 4] ! 1 - [0, 1, 2, 3, 4] ! 0)"
    using am p0 by simp
  show ?thesis
    unfolding ridge5_smoothed r0
    using ridge5_wf(1-4,6) la p0 am' eq by simp
qed

text \<open>
  Claim C1: for a ridge shorter than the requested window the filter is applied with the
  window shrunk to the largest odd value not exceeding the ridge length.  The code does
  not do this: the shrunk value is computed and dropped, and the filter is called with
  the requested window \<open>w\<close>.  So when the filter rejects \<open>w\<close> on the short ridge, as
  scipy's does for a window longer than its input, \<open>eval_ridge\<close> raises that exception,
  whatever the filter would return for the shrunk window.
\<close>

theorem eval_ridge_window_not_shrunk:
  fixes wlet :: "complex matrix" and signal periods tvec :: "real list"
    and ridge_y :: "int list" and th :: real
  assumes "2 \<le> length tvec" "length tvec = shape1 wlet"
    and "length ridge_y = shape1 wlet"
    and "rectangular wlet"
    and "\<forall>y \<in> set ridge_y. 0 \<le> y \<and> y < int (shape0 wlet)"
    and "length periods = shape0 wlet"
    and "int (length ridge_y) < w"
    and "sg (map (\<lambda>y. periods ! nat y) ridge_y) w 3 = Inl e"
  shows "eval_ridge sg ridge_y wlet signal periods tvec th (Some w) = Inl e"
  unfolding eval_ridge_unfold [OF assms(1-6)] using assms(8)
  by (simp add: py_bind_Inl)

theorem eval_ridge_window_not_shrunk_witness:
  "2 \<le> length [0, 1, 2, 3, 4 :: real] \<and>
   length [0, 1, 2, 3, 4 :: real] = shape1 [[1, 1, 1, 1, 1], [2, 2, 2, 2, 2 :: complex]] \<and>
   length [0, 1, 0, 1, 0 :: int] = shape1 [[1, 1, 1, 1, 1], [2, 2, 2, 2, 2 :: complex]] \<and>
   rectangular [[1, 1, 1, 1, 1], [2, 2, 2, 2, 2 :: complex]] \<and>
   list_all (\<lambda>y. 0 \<le> y \<and> y < int (shape0 [[1, 1, 1, 1, 1], [2, 2, 2, 2, 2 :: complex]]))
     [0, 1, 0, 1, 0] \<and>
   length [10, 20 :: real] = shape0 [[1, 1, 1, 1, 1], [2, 2, 2, 2, 2 :: complex]] \<and>
   int (length [0, 1, 0, 1, 0 :: int]) < 11 \<and>
   (if int (length (map (\<lambda>y. [10, 20 :: real] ! nat y) [0, 1, 0, 1, 0])) < 11
    then Inl ValueError else Inr (map (\<lambda>y. [10, 20 :: real] ! nat y) [0, 1, 0, 1, 0])) =
     Inl ValueError \<and>
   (if int (length (map (\<lambda>y. [10, 20 :: real] ! nat y) [0, 1, 0, 1, 0])) < 5
    then Inl ValueError else Inr (map (\<lambda>y. [10, 20 :: real] ! nat y) [0, 1, 0, 1, 0])) =
     Inr [10, 20, 10, 20, 10] \<and>
   eval_ridge (\<lambda>x w p. if int (length x) < w then Inl ValueError else Inr x) [0, 1, 0, 1, 0]
     [[1, 1, 1, 1, 1], [2, 2, 2, 2, 2]] [1, - 1] [10, 20] [0, 1, 2, 3, 4] 2 (Some 11) =
     Inl ValueError"
proof -
  let ?sg = "\<lambda>(x :: real list) (w :: int) (p :: nat).
               (if int (length x) < w then Inl ValueError else Inr x :: py_error + real list)"
  have short: "int (length [0, 1, 0, 1, 0 :: int]) < 11" by simp
  have rej: "?sg (map (\<lambda>y. [10, 20] ! nat y) [0, 1, 0, 1, 0]) 11 3 = Inl ValueError" by simp
  have run: "eval_ridge ?sg [0, 1, 0, 1, 0] [[1, 1, 1, 1, 1], [2, 2, 2, 2, 2]] [1, - 1] [10, 20]
      [0, 1, 2, 3, 4] 2 (Some 11) = Inl ValueError"
    by (rule eval_ridge_window_not_shrunk [where sg = ?sg, OF ridge5_wf short rej])
  have la: "list_all (\<lambda>y. 0 \<le> y \<and> y < int (shape0 [[1, 1, 1, 1, 1], [2, 2, 2, 2, 2 :: complex]]))
     [0, 1, 0, 1, 0]"
    using ridge5_wf(5) by (simp add: list_all_iff)
  show ?thesis
    unfolding run using ridge5_wf(1-4,6) la by simp
qed

section \<open>Properties of the cone of influence crossing\<close>

lemma sqrt2_bounds: "1 < sqrt 2" "sqrt 2 < 3 / 2"
proof -
  show "1 < sqrt 2" by simp
  have "sqrt 2 < sqrt ((3 / 2)\<^sup>2)"
    by (rule real_sqrt_less_mono) (simp add: power2_eq_square)
  then show "sqrt 2 < 3 / 2" by simp
qed

lemma sqrt_om_bounds: "2 * pi < sqrt (2 + omega0\<^sup>2)" "sqrt (2 + omega0\<^sup>2) < 2 * pi + 1"
proof -
  show "2 * pi < sqrt (2 + omega0\<^sup>2)"
    by (rule real_less_rsqrt) (simp add: omega0_def)
  have "2 \<le> pi" by (rule pi_ge_two)
  then have "2 + omega0\<^sup>2 < (2 * pi + 1)\<^sup>2"
    by (simp add: omega0_def power2_eq_square algebra_simps)
  moreover have "0 \<le> 2 * pi + 1" by simp
  ultimately show "sqrt (2 + omega0\<^sup>2) < 2 * pi + 1"
    by (intro real_less_lsqrt)
qed

lemma Morlet_COI_bounds: "1 / 2 < Morlet_COI omega0" "Morlet_COI omega0 < 1"
proof -
  let ?s = "sqrt (2 + omega0\<^sup>2)"
  let ?d = "sqrt 2 * (omega0 + ?s)"
  have pi3: "2 \<le> pi" by (rule pi_ge_two)
  have s: "2 * pi < ?s" "?s < 2 * pi + 1" by (rule sqrt_om_bounds)+
  have sum_pos: "0 < omega0 + ?s" using s(1) pi3 by (simp add: omega0_def)
  have d_pos: "0 < ?d" using sum_pos by simp
  have "?d < 3 / 2 * (omega0 + ?s)"
    using sqrt2_bounds(2) sum_pos by (rule mult_strict_right_mono)
  also have "\<dots> < 3 / 2 * (4 * pi + 1)" using s(2) by (simp add: omega0_def)
  also have "\<dots> < 8 * pi" using pi3 by simp
  finally have up: "?d < 8 * pi" .
  have "1 * (omega0 + ?s) < ?d"
    using sqrt2_bounds(1) sum_pos by (rule mult_strict_right_mono)
  then have lo: "4 * pi < ?d" using s(1) by (simp add: omega0_def)
  show "1 / 2 < Morlet_COI omega0"
    unfolding Morlet_COI_def using up d_pos by (simp add: field_simps)
  show "Morlet_COI omega0 < 1"
    unfolding Morlet_COI_def using lo d_pos by (simp add: field_simps)
qed

lemma getitem_empty: "getitem [] i = Inl IndexError"
  by (simp add: getitem_def np_index_def)

lemma getitem_last: "xs \<noteq> [] \<Longrightarrow> getitem xs (- 1) = Inr (last xs)"
  by (cases xs rule: rev_cases) (auto simp: getitem_def np_index_def nth_append)

lemma getitem_first: "xs \<noteq> [] \<Longrightarrow> getitem xs 0 = Inr (hd xs)"
  by (cases xs) (auto simp: getitem_def np_index_def)

lemma np_mask_empty_iff:
  assumes "length inds = length xs"
  shows "np_mask xs inds = Inr sel \<Longrightarrow> sel = [] \<longleftrightarrow> (\<forall>i < length xs. \<not> inds ! i)"
proof -
  assume "np_mask xs inds = Inr sel"
  then have "sel = map (\<lambda>i. xs ! i) (filter (\<lambda>i. inds ! i) [0..<length xs])"
    using np_mask_by_index [OF assms] by simp
  then show ?thesis by (auto simp: filter_empty_conv)
qed

lemma find_COI_crossing_cases:
  assumes lt: "length (rd_time rd) = length (rd_index rd)"
    and lp: "length (rd_periods rd) = length (rd_index rd)"
  defines "n \<equiv> length (rd_index rd)"
  defines "left \<equiv> filter (\<lambda>i. \<not> Morlet_COI omega0 * rd_time rd ! i > rd_periods rd ! i) [0..<n]"
    and "right \<equiv> filter (\<lambda>i. Morlet_COI omega0 * rd_time rd ! (n - 1 - i) < rd_periods rd ! i) [0..<n]"
  shows "find_COI_crossing rd =
     (if left = [] \<or> right = [] then Inl IndexError
      else Inr (rd_index rd ! last left, rd_index rd ! hd right))"
proof -
  let ?m = "Morlet_COI omega0"
  let ?L = "map2 (\<lambda>c p. \<not> (c > p)) (map (\<lambda>t. ?m * t) (rd_time rd)) (rd_periods rd)"
  let ?R = "map2 (\<lambda>c p. c < p) (map (\<lambda>t. ?m * t) (rev (rd_time rd))) (rd_periods rd)"
  have lL: "length ?L = length (rd_index rd)" and lR: "length ?R = length (rd_index rd)"
    using lt lp by simp_all
  have fL: "filter (\<lambda>i. ?L ! i) [0..<length (rd_index rd)] = left"
    unfolding left_def n_def by (rule filter_cong) (use lt lp in simp_all)
  have fR: "filter (\<lambda>i. ?R ! i) [0..<length (rd_index rd)] = right"
    unfolding right_def n_def by (rule filter_cong) (use lt lp in \<open>simp_all add: rev_nth\<close>)
  have mL: "np_mask (rd_index rd) ?L = Inr (map (\<lambda>i. rd_index rd ! i) left)"
    using np_mask_by_index [OF lL] fL by simp
  have mR: "np_mask (rd_index rd) ?R = Inr (map (\<lambda>i. rd_index rd ! i) right)"
    using np_mask_by_index [OF lR] fR by simp
  show ?thesis
  proof (cases "left = []")
    case True
    then show ?thesis
      unfolding find_COI_crossing_def Let_def mL
      by (simp add: py_bind_def getitem_empty)
  next
    case l: False
    then have gl: "getitem (map (\<lambda>i. rd_index rd ! i) left) (- 1) = Inr (rd_index rd ! last left)"
      by (simp add: getitem_last last_map)
    show ?thesis
    proof (cases "right = []")
      case True
      then show ?thesis
        unfolding find_COI_crossing_def Let_def mL mR
        using l gl by (simp add: py_bind_def getitem_empty)
    next
      case r: False
      then have gr: "getitem (map (\<lambda>i. rd_index rd ! i) right) 0 = Inr (rd_index rd ! hd right)"
        by (simp add: getitem_first hd_map)
      show ?thesis
        unfolding find_COI_crossing_def Let_def mL mR
        using l r gl gr by (simp add: py_bind_def)
    qed
  qed
qed

text \<open>
  Claim C10.  \<open>find_COI_crossing\<close> is partial.  On a table whose every row lies inside the
  left cone (\<open>period < m * time\<close> for all rows), or none of whose rows lies outside the
  right cone (\<open>m * time\<close> of the reversed time column is never below the period), the
  index selection is empty and the function raises IndexError; on every other table it
  returns a pair.
\<close>

theorem find_COI_crossing_partial:
  assumes "length (rd_time rd) = length (rd_index rd)"
    and "length (rd_periods rd) = length (rd_index rd)"
  shows "((\<forall>i < length (rd_index rd).
             rd_periods rd ! i < Morlet_COI omega0 * rd_time rd ! i) \<or>
          (\<forall>i < length (rd_index rd).
             \<not> Morlet_COI omega0 * rd_time rd ! (length (rd_index rd) - 1 - i) < rd_periods rd ! i)
          \<longrightarrow> find_COI_crossing rd = Inl IndexError) \<and>
         (\<not> ((\<forall>i < length (rd_index rd).
             rd_periods rd ! i < Morlet_COI omega0 * rd_time rd ! i) \<or>
          (\<forall>i < length (rd_index rd).
             \<not> Morlet_COI omega0 * rd_time rd ! (length (rd_index rd) - 1 - i) < rd_periods rd ! i))
          \<longrightarrow> (\<exists>t_left t_right. find_COI_crossing rd = Inr (t_left, t_right)))"
proof -
  let ?n = "length (rd_index rd)"
  let ?left = "filter (\<lambda>i. \<not> Morlet_COI omega0 * rd_time rd ! i > rd_periods rd ! i) [0..<?n]"
  let ?right = "filter (\<lambda>i. Morlet_COI omega0 * rd_time rd ! (?n - 1 - i) < rd_periods rd ! i) [0..<?n]"
  have l: "?left = [] \<longleftrightarrow> (\<forall>i < ?n. rd_periods rd ! i < Morlet_COI omega0 * rd_time rd ! i)"
    by (auto simp: filter_empty_conv)
  have r: "?right = [] \<longleftrightarrow>
      (\<forall>i < ?n. \<not> Morlet_COI omega0 * rd_time rd ! (?n - 1 - i) < rd_periods rd ! i)"
    by (auto simp: filter_empty_conv)
  show ?thesis
    unfolding find_COI_crossing_cases [OF assms] l r by simp
qed

theorem find_COI_crossing_partial_witness:
  "length (rd_time \<lparr>rd_index = [0, 1, 2], rd_time = [10, 20, 30], rd_periods = [2, 3, 4],
        rd_phase = [0, 0, 0], rd_amplitude = [1, 1, 1], rd_power = [1, 1, 1],
        rd_frequencies = [1 / 2, 1 / 3, 1 / 4]\<rparr>) = length [0, 1, 2 :: nat] \<and>
   length (rd_periods \<lparr>rd_index = [0, 1, 2], rd_time = [10, 20, 30], rd_periods = [2, 3, 4],
        rd_phase = [0, 0, 0], rd_amplitude = [1, 1, 1], rd_power = [1, 1, 1],
        rd_frequencies = [1 / 2, 1 / 3, 1 / 4]\<rparr>) = length [0, 1, 2 :: nat] \<and>
   2 < Morlet_COI omega0 * 10 \<and> 3 < Morlet_COI omega0 * 20 \<and> 4 < Morlet_COI omega0 * 30 \<and>
   find_COI_crossing \<lparr>rd_index = [0, 1, 2], rd_time = [10, 20, 30], rd_periods = [2, 3, 4],
        rd_phase = [0, 0, 0], rd_amplitude = [1, 1, 1], rd_power = [1, 1, 1],
        rd_frequencies = [1 / 2, 1 / 3, 1 / 4]\<rparr> = Inl IndexError \<and>
   \<not> 5 < Morlet_COI omega0 * 3 \<and> Morlet_COI omega0 * 1 < 5 \<and>
   \<not> isl (find_COI_crossing \<lparr>rd_index = [0, 1, 2], rd_time = [1, 2, 3], rd_periods = [5, 5, 5],
        rd_phase = [0, 0, 0], rd_amplitude = [1, 1, 1], rd_power = [1, 1, 1],
        rd_frequencies = [1 / 5, 1 / 5, 1 / 5]\<rparr>)"
proof -
  let ?m = "Morlet_COI omega0"
  let ?A = "\<lparr>rd_index = [0, 1, 2], rd_time = [10, 20, 30], rd_periods = [2, 3, 4],
        rd_phase = [0, 0, 0], rd_amplitude = [1, 1, 1], rd_power = [1, 1, 1],
        rd_frequencies = [1 / 2, 1 / 3, 1 / 4 :: real]\<rparr>"
  let ?B = "\<lparr>rd_index = [0, 1, 2], rd_time = [1, 2, 3], rd_periods = [5, 5, 5],
        rd_phase = [0, 0, 0], rd_amplitude = [1, 1, 1], rd_power = [1, 1, 1],
        rd_frequencies = [1 / 5, 1 / 5, 1 / 5 :: real]\<rparr>"
  have lo: "1 / 2 < ?m" and hi: "?m < 1" by (rule Morlet_COI_bounds)+
  have in3: "i = 0 \<or> i = 1 \<or> i = 2" if "i < 3" for i :: nat using that by arith
  have a: "2 < ?m * 10" "3 < ?m * 20" "4 < ?m * 30" using lo by simp_all
  have b: "\<not> 5 < ?m * 3" "?m * 1 < 5" using hi by simp_all
  have lenA: "length (rd_time ?A) = length (rd_index ?A)"
      "length (rd_periods ?A) = length (rd_index ?A)" by simp_all
  have lenB: "length (rd_time ?B) = length (rd_index ?B)"
      "length (rd_periods ?B) = length (rd_index ?B)" by simp_all
  have allA: "\<forall>i < length (rd_index ?A). rd_periods ?A ! i < ?m * rd_time ?A ! i"
  proof (intro allI impI)
    fix i assume "i < length (rd_index ?A)"
    then have "i = 0 \<or> i = 1 \<or> i = 2" using in3 by simp
    then show "rd_periods ?A ! i < ?m * rd_time ?A ! i" using a by auto
  qed
  have ra: "find_COI_crossing ?A = Inl IndexError"
    using find_COI_crossing_partial [OF lenA, THEN conjunct1] allA by blast
  have notB1: "\<not> (\<forall>i < length (rd_index ?B). rd_periods ?B ! i < ?m * rd_time ?B ! i)"
  proof
    assume "\<forall>i < length (rd_index ?B). rd_periods ?B ! i < ?m * rd_time ?B ! i"
    then have "2 < length (rd_index ?B) \<longrightarrow> rd_periods ?B ! 2 < ?m * rd_time ?B ! 2" by (rule spec)
    then have "rd_periods ?B ! 2 < ?m * rd_time ?B ! 2" by simp
    then show False using b(1) by simp
  qed
  have notB2: "\<not> (\<forall>i < length (rd_index ?B).
      \<not> ?m * rd_time ?B ! (length (rd_index ?B) - 1 - i) < rd_periods ?B ! i)"
  proof
    assume "\<forall>i < length (rd_index ?B).
      \<not> ?m * rd_time ?B ! (length (rd_index ?B) - 1 - i) < rd_periods ?B ! i"
    then have "2 < length (rd_index ?B) \<longrightarrow>
        \<not> ?m * rd_time ?B ! (length (rd_index ?B) - 1 - 2) < rd_periods ?B ! 2" by (rule spec)
    then have "\<not> ?m * rd_time ?B ! (length (rd_index ?B) - 1 - 2) < rd_periods ?B ! 2" by simp
    then show False using b(2) by simp
  qed
  have "\<exists>t_left t_right. find_COI_crossing ?B = Inr (t_left, t_right)"
    using find_COI_crossing_partial [OF lenB, THEN conjunct2] notB1 notB2 by blast
  then have rb: "\<not> isl (find_COI_crossing ?B)" by auto
  show ?thesis
    unfolding ra using a b rb by simp
qed

section \<open>Properties of the envelope normalisation\<close>

text \<open>
  Claim C3: \<open>normalize_with_envelope\<close> returns the mean-subtracted signal divided by the
  envelope of the mean-subtracted signal.  The code does not do this: the envelope is
  taken of the mean-subtracted signal, but the quotient is formed with the signal as it
  was passed in.  Every entry of the result is \<open>dsignal[i] / env[i]\<close>, which differs from
  \<open>(dsignal[i] - mean) / env[i]\<close> whenever the mean and the envelope entry are not zero.
\<close>

theorem normalize_with_envelope_keeps_mean:
  assumes "normalize_with_envelope sg dsignal w = Inr r"
  shows "\<exists>env.
     sliding_window_amplitude sg (map (\<lambda>x. x - np_mean dsignal) dsignal) w True = Inr env \<and>
     r = map2 (\<lambda>e x. 1 / e * x) env dsignal \<and>
     (\<forall>i. i < length env \<and> i < length dsignal \<longrightarrow>
        r ! i = dsignal ! i / env ! i \<and>
        (np_mean dsignal \<noteq> 0 \<and> env ! i \<noteq> 0 \<longrightarrow>
           r ! i \<noteq> (dsignal ! i - np_mean dsignal) / env ! i))"
proof -
  have "\<exists>env. sliding_window_amplitude sg (map (\<lambda>x. x - np_mean dsignal) dsignal) w True = Inr env
      \<and> r = map2 (\<lambda>e x. 1 / e * x) env dsignal"
  proof (cases "sliding_window_amplitude sg (map (\<lambda>x. x - np_mean dsignal) dsignal) w True")
    case (Inl e)
    then show ?thesis using assms unfolding normalize_with_envelope_def Let_def by simp
  next
    case (Inr env)
    have "normalize_with_envelope sg dsignal w = Inr (map2 (\<lambda>e x. 1 / e * x) env dsignal)"
      unfolding normalize_with_envelope_def Let_def Inr by (simp only: sum.case)
    then have "Inr r = (Inr (map2 (\<lambda>e x. 1 / e * x) env dsignal) :: py_error + real list)"
      using assms by (simp only:)
    then have "r = map2 (\<lambda>e x. 1 / e * x) env dsignal"
      by (simp only: sum.inject)
    with Inr show ?thesis by blast
  qed
  then obtain env where
    env: "sliding_window_amplitude sg (map (\<lambda>x. x - np_mean dsignal) dsignal) w True = Inr env"
    and r: "r = map2 (\<lambda>e x. 1 / e * x) env dsignal"
    by blast
  have "r ! i = dsignal ! i / env ! i \<and>
        (np_mean dsignal \<noteq> 0 \<and> env ! i \<noteq> 0 \<longrightarrow>
           r ! i \<noteq> (dsignal ! i - np_mean dsignal) / env ! i)"
    if "i < length env" "i < length dsignal" for i
  proof -
    have "r ! i = dsignal ! i / env ! i" using that by (simp add: r)
    then show ?thesis by (simp add: diff_divide_distrib)
  qed
  with env r show ?thesis by blast
qed

lemma envelope_example:
  "sliding_window_amplitude (\<lambda>x w p. Inr x) [- (4 / 5), 6 / 5, - (4 / 5), 6 / 5, - (4 / 5)] 5 True =
     Inr [1, 1, 1, 1, 1]"
  by (simp add: sliding_window_amplitude_def rolling_rows_def Let_def upt_conv_Cons)

lemma normalize_example:
  "normalize_with_envelope (\<lambda>x w p. Inr x) [1, 3, 1, 3, 1] 5 = Inr [1, 3, 1, 3, 1]"
  by (simp add: normalize_with_envelope_def np_mean_def envelope_example)

theorem normalize_with_envelope_keeps_mean_witness:
  "normalize_with_envelope (\<lambda>x w p. Inr x) [1, 3, 1, 3, 1] 5 = Inr [1, 3, 1, 3, 1] \<and>
   np_mean [1, 3, 1, 3, 1] = 9 / 5 \<and>
   sliding_window_amplitude (\<lambda>x w p. Inr x)
     (map (\<lambda>x. x - np_mean [1, 3, 1, 3, 1]) [1, 3, 1, 3, 1]) 5 True = Inr [1, 1, 1, 1, 1] \<and>
   [1, 3, 1, 3, 1] ! 0 = [1, 3, 1, 3, 1] ! 0 / ([1, 1, 1, 1, 1] ! 0 :: real) \<and>
   [1, 3, 1, 3, 1] ! 0 \<noteq> ([1, 3, 1, 3, 1] ! 0 - np_mean [1, 3, 1, 3, 1]) / ([1, 1, 1, 1, 1] ! 0 :: real)"
proof -
  let ?sg = "\<lambda>(x :: real list) (w :: int) (p :: nat). (Inr x :: py_error + real list)"
  let ?d = "[1, 3, 1, 3, 1 :: real]"
  have mean: "np_mean ?d = 9 / 5" by (simp add: np_mean_def)
  have envd: "sliding_window_amplitude ?sg (map (\<lambda>x. x - np_mean ?d) ?d) 5 True =
      Inr [1, 1, 1, 1, 1]"
    using envelope_example by (simp add: mean)
  from normalize_with_envelope_keeps_mean [where sg = ?sg, OF normalize_example]
  obtain env where
    e: "sliding_window_amplitude ?sg (map (\<lambda>x. x - np_mean ?d) ?d) 5 True = Inr env" and
    pt: "\<forall>i. i < length env \<and> i < length ?d \<longrightarrow>
        ?d ! i = ?d ! i / env ! i \<and>
        (np_mean ?d \<noteq> 0 \<and> env ! i \<noteq> 0 \<longrightarrow> ?d ! i \<noteq> (?d ! i - np_mean ?d) / env ! i)"
    by blast
  have env: "env = [1, 1, 1, 1, 1]" using e envd by simp
  have "0 < length env \<and> 0 < length ?d \<longrightarrow>
        ?d ! 0 = ?d ! 0 / env ! 0 \<and>
        (np_mean ?d \<noteq> 0 \<and> env ! 0 \<noteq> 0 \<longrightarrow> ?d ! 0 \<noteq> (?d ! 0 - np_mean ?d) / env ! 0)"
    using pt by (rule spec)
  then have "?d ! 0 = ?d ! 0 / ([1, 1, 1, 1, 1] ! 0 :: real) \<and>
      ?d ! 0 \<noteq> (?d ! 0 - np_mean ?d) / ([1, 1, 1, 1, 1] ! 0 :: real)"
    unfolding env by (simp add: mean)
  then show ?thesis
    unfolding normalize_example envd using mean by simp
qed

section \<open>Properties of the sinc filter\<close>

lemma map_nth_upto:
  assumes "0 \<le> a" "b < int (length xs)"
  shows "map (\<lambda>i. xs ! nat i) [a..b] = take (nat (b - a + 1)) (drop (nat a) xs)"
proof (rule nth_equalityI)
  show "length (map (\<lambda>i. xs ! nat i) [a..b]) = length (take (nat (b - a + 1)) (drop (nat a) xs))"
    using assms by auto
next
  fix k assume "k < length (map (\<lambda>i. xs ! nat i) [a..b])"
  then have k: "int k < b - a + 1" by auto
  then have "[a..b] ! k = a + int k" by (simp add: nth_upto)
  moreover have "nat (a + int k) = nat a + k" using assms(1) by (simp add: nat_add_distrib)
  ultimately show "map (\<lambda>i. xs ! nat i) [a..b] ! k = take (nat (b - a + 1)) (drop (nat a) xs) ! k"
    using k assms by simp
qed

lemma py_slice_rev_front:
  assumes "k < length xs"
  shows "py_slice_rev xs (int k) 0 = rev (take k (tl xs))"
proof -
  have "py_slice_rev xs (int k) 0 = rev (map (\<lambda>i. xs ! nat i) [1..int k])"
    using assms by (auto simp: py_slice_rev_def Let_def rev_map min_def)
  also have "map (\<lambda>i. xs ! nat i) [1..int k] = take (nat (int k - 1 + 1)) (drop (nat 1) xs)"
    by (rule map_nth_upto) (use assms in simp_all)
  finally show ?thesis by (simp add: drop_Suc)
qed

lemma py_slice_rev_back:
  assumes "1 \<le> k" "k \<le> length xs"
  shows "py_slice_rev xs (- 1) (- int k) = rev (drop (length xs + 1 - k) xs)"
proof -
  let ?n = "int (length xs)"
  have "py_slice_rev xs (- 1) (- int k) = rev (map (\<lambda>i. xs ! nat i) [?n - int k + 1..?n - 1])"
    using assms by (simp add: py_slice_rev_def Let_def rev_map max_def)
  also have "map (\<lambda>i. xs ! nat i) [?n - int k + 1..?n - 1] =
      take (nat (?n - 1 - (?n - int k + 1) + 1)) (drop (nat (?n - int k + 1)) xs)"
    by (rule map_nth_upto) (use assms in simp_all)
  also have "nat (?n - int k + 1) = length xs + 1 - k" using assms by linarith
  finally show ?thesis using assms by simp
qed

lemma sinc_filter_length:
  assumes "M mod 2 = 0" "0 \<le> M"
  shows "\<exists>w. sinc_filter M f_c = Inr w \<and> length w = nat M + 1"
  using assms by (simp add: sinc_filter_def Let_def)

lemma convolve_valid_length:
  assumes "a \<noteq> []" "length a \<le> length v"
  shows "\<exists>y. convolve_valid a v = Inr y \<and> length y = length v - length a + 1"
proof (cases "length a < length v")
  case True
  then show ?thesis using assms by (auto simp: convolve_valid_def Let_def)
next
  case False
  then have "length a = length v" using assms(2) by simp
  then show ?thesis using assms by (auto simp: convolve_valid_def Let_def)
qed

lemma py_slice_trim:
  assumes "2 * h \<le> length y"
  shows "py_slice y (int h) (int (length y) - int h) = take (length y - 2 * h) (drop h y)"
proof -
  have "py_slice y (int h) (int (length y) - int h) = drop h (take (length y - h) y)"
    using assms by (simp add: py_slice_def Let_def min_def nat_diff_distrib)
  also have "\<dots> = take (length y - h - h) (drop h y)" by (simp add: drop_take)
  finally show ?thesis by (simp add: mult_2)
qed

lemma smooth_extern:
  assumes odd: "odd (length w)" and w3: "3 \<le> length w" and wn: "length w \<le> length x"
  shows "\<exists>y. convolve_valid (map (\<lambda>c. c / sum_list w) w)
              (rev (take (length w - 1) (tl x)) @ x @ rev (drop (length x + 1 - length w) x)) = Inr y \<and>
             length y = length x + length w - 1 \<and>
             smooth x wlen window (Some w) = Inr (take (length x) (drop ((length w - 1) div 2) y))"
proof -
  let ?k = "length w" and ?n = "length x"
  let ?s = "rev (take (?k - 1) (tl x)) @ x @ rev (drop (?n + 1 - ?k) x)"
  let ?a = "map (\<lambda>c. c / sum_list w) w"
  have fr: "py_slice_rev x (int ?k - 1) 0 = rev (take (?k - 1) (tl x))"
    using py_slice_rev_front [of "?k - 1" x] w3 wn by (simp add: of_nat_diff)
  have bk: "py_slice_rev x (- 1) (- int ?k) = rev (drop (?n + 1 - ?k) x)"
    by (rule py_slice_rev_back) (use w3 wn in simp_all)
  have ls: "length ?s = ?n + 2 * (?k - 1)" using w3 wn by simp
  have "?a \<noteq> []" "length ?a \<le> length ?s" using w3 wn by auto
  then obtain y where y: "convolve_valid ?a ?s = Inr y" and
    ly: "length y = length ?s - length ?a + 1"
    using convolve_valid_length by blast
  have ly': "length y = ?n + ?k - 1" using ly ls w3 by simp
  have h2: "2 * ((?k - 1) div 2) = ?k - 1" using odd by (auto elim: oddE)
  have hdiv: "(int ?k - 1) div 2 = int ((?k - 1) div 2)" using w3 by (simp add: of_nat_diff zdiv_int)
  have "2 * ((?k - 1) div 2) \<le> length y" using h2 ly' by simp
  then have "py_slice y (int ((?k - 1) div 2)) (int (length y) - int ((?k - 1) div 2)) =
      take (length y - 2 * ((?k - 1) div 2)) (drop ((?k - 1) div 2) y)"
    by (rule py_slice_trim)
  also have "length y - 2 * ((?k - 1) div 2) = ?n" using h2 ly' w3 by simp
  finally have trim: "py_slice y (int ((?k - 1) div 2)) (int (length y) - int ((?k - 1) div 2)) =
      take ?n (drop ((?k - 1) div 2) y)" .
  have checks: "\<not> int ?n < int ?k" "\<not> int ?k < 3" "int ?k mod 2 \<noteq> 0"
    using w3 wn odd by (simp_all add: even_iff_mod_2_eq_zero [symmetric])
  have "smooth x wlen window (Some w) =
      (case convolve_valid ?a (py_slice_rev x (int ?k - 1) 0 @ x @ py_slice_rev x (- 1) (- int ?k)) of
         Inl e \<Rightarrow> Inl e
       | Inr y \<Rightarrow> Inr (py_slice y ((int ?k - 1) div 2) (int (length y) - (int ?k - 1) div 2)))"
    unfolding smooth_def Let_def using checks by (simp cong: sum.case_cong)
  also have "\<dots> = Inr (py_slice y (int ((?k - 1) div 2)) (int (length y) - int ((?k - 1) div 2)))"
    by (simp only: fr bk y hdiv sum.case)
  finally have "smooth x wlen window (Some w) = Inr (take ?n (drop ((?k - 1) div 2) y))"
    by (simp only: trim)
  with y ly' show ?thesis by blast
qed

text \<open>
  Claim C8.  For a signal of length \<open>N \<ge> 3\<close> and a cut-off period that is not zero,
  \<open>sinc_smooth\<close> with the default kernel length raises no exception and returns a trend
  of exactly \<open>N\<close> entries.  The kernel has the odd length \<open>wl\<close> (\<open>N\<close> if \<open>N\<close> is odd, else
  \<open>N - 1\<close>); the signal is extended by \<open>wl - 1\<close> reflected samples at either end, convolved
  in "valid" mode with the kernel divided by its sum, and \<open>(wl - 1) / 2\<close> entries are cut
  from either end of the result.
\<close>

theorem sinc_smooth_same_length:
  assumes "3 \<le> length signal" and "T_c \<noteq> 0"
  shows "\<exists>wl w y.
     wl = (if odd (length signal) then length signal else length signal - 1) \<and>
     sinc_filter (int wl - 1) (dt / T_c) = Inr w \<and> length w = wl \<and>
     convolve_valid (map (\<lambda>c. c / sum_list w) w)
       (rev (take (wl - 1) (tl signal)) @ signal @ rev (drop (length signal + 1 - wl) signal))
       = Inr y \<and>
     sinc_smooth signal T_c dt None = Inr (take (length signal) (drop ((wl - 1) div 2) y)) \<and>
     length (take (length signal) (drop ((wl - 1) div 2) y)) = length signal"
proof -
  let ?n = "length signal"
  define wl where "wl = (if odd ?n then ?n else ?n - 1)"
  have "even ?n \<Longrightarrow> 4 \<le> ?n" using assms(1) by presburger
  then have wl: "odd wl" "3 \<le> wl" "wl \<le> ?n" using assms(1) by (auto simp: wl_def)
  have M: "(let m = int ?n - 1 in if m mod 2 \<noteq> 0 then m - 1 else m) = int wl - 1"
  proof (cases "odd ?n")
    case True
    then have "(int ?n - 1) mod 2 = 0" by presburger
    then show ?thesis using True by (simp add: wl_def Let_def)
  next
    case False
    then have "(int ?n - 1) mod 2 \<noteq> 0" by presburger
    then show ?thesis using False assms(1) by (simp add: wl_def Let_def of_nat_diff)
  qed
  have "(int wl - 1) mod 2 = 0" using wl(1) by presburger
  moreover have "0 \<le> int wl - 1" using wl(2) by simp
  ultimately have "\<exists>w. sinc_filter (int wl - 1) (dt / T_c) = Inr w \<and>
      length w = nat (int wl - 1) + 1"
    by (rule sinc_filter_length)
  then obtain w where w: "sinc_filter (int wl - 1) (dt / T_c) = Inr w"
    and lw0: "length w = nat (int wl - 1) + 1"
    by blast
  have lw: "length w = wl" using lw0 wl(2) by simp
  from smooth_extern [of w signal 11 "''flat''"] wl lw
  obtain y where
    y: "convolve_valid (map (\<lambda>c. c / sum_list w) w)
          (rev (take (wl - 1) (tl signal)) @ signal @ rev (drop (?n + 1 - wl) signal)) = Inr y" and
    ly: "length y = ?n + wl - 1" and
    sm: "smooth signal 11 ''flat'' (Some w) = Inr (take ?n (drop ((wl - 1) div 2) y))"
    by auto
  have run: "sinc_smooth signal T_c dt None = Inr (take ?n (drop ((wl - 1) div 2) y))"
    unfolding sinc_smooth_def using assms(2) M w sm by (simp add: Let_def)
  have "(wl - 1) div 2 + ?n \<le> length y" using ly wl by simp
  then have len: "length (take ?n (drop ((wl - 1) div 2) y)) = ?n" by simp
  from wl_def w lw y run len show ?thesis by blast
qed

theorem sinc_smooth_same_length_witness:
  "3 \<le> length [1, 2, 3 :: real] \<and> (10 :: real) \<noteq> 0 \<and>
   map_sum id length (sinc_smooth [1, 2, 3] 10 1 None) = Inr 3 \<and>
   3 \<le> length [1, 2, 3, 4 :: real] \<and>
   map_sum id length (sinc_smooth [1, 2, 3, 4] 10 1 None) = Inr 4"
proof -
  have h3: "3 \<le> length [1, 2, 3 :: real]" and h4: "3 \<le> length [1, 2, 3, 4 :: real]"
    and t: "(10 :: real) \<noteq> 0"
    by simp_all
  from sinc_smooth_same_length [OF h3 t, of 1] obtain z3 where
    r3: "sinc_smooth [1, 2, 3] 10 1 None = Inr z3" and l3: "length z3 = length [1, 2, 3 :: real]"
    by blast
  from sinc_smooth_same_length [OF h4 t, of 1] obtain z4 where
    r4: "sinc_smooth [1, 2, 3, 4] 10 1 None = Inr z4" and l4: "length z4 = length [1, 2, 3, 4 :: real]"
    by blast
  show ?thesis
    unfolding r3 r4 using l3 l4 by simp
qed

end
